theory Spec2Isabelle
  imports Main "HOL-Library.AList" "HOL-Library.Multiset"
begin

section \<open>Python values shared by the modules\<close>

text \<open>
  The exceptions the modelled code can raise or catch. Every \<^verbatim>\<open>raise\<close> of the source,
  and every library call of the source that can raise, is a branch returning \<open>Inl\<close>
  of one of these.
\<close>

datatype exc =
    ZeroDivisionError
  | ValueError
  | KeyError
  | RuntimeError
  | RequestException
  | HTTPError
  | CalledProcessError
  | OSError
  | ScheduleValueError

text \<open>\<^verbatim>\<open>d.get(k, default)\<close> on a dictionary.\<close>

definition dict_get :: "('k \<rightharpoonup> 'v) \<Rightarrow> 'k \<Rightarrow> 'v \<Rightarrow> 'v" where
  "dict_get d k dflt = (case d k of None \<Rightarrow> dflt | Some v \<Rightarrow> v)"

subsection \<open>Strings\<close>

text \<open>
  A Python \<^verbatim>\<open>str\<close> is a list of characters; the 8-bit characters of the model are the
  code points U+0000 to U+00FF. \<^verbatim>\<open>str.isspace\<close> holds of the code points 9 to 13, 28 to
  32, 133 and 160 in that range, and \<^verbatim>\<open>str.lower\<close> moves A-Z and the Latin-1 capitals
  (192 to 222 but 215) up by 32.
\<close>

definition is_space :: "char \<Rightarrow> bool" where
  "is_space c = ((of_char c :: nat) \<in> {9, 10, 11, 12, 13, 28, 29, 30, 31, 32, 133, 160})"

definition lower_char :: "char \<Rightarrow> char" where
  "lower_char c =
     (let n = of_char c :: nat
      in if (65 \<le> n \<and> n \<le> 90) \<or> (192 \<le> n \<and> n \<le> 222 \<and> n \<noteq> 215)
         then char_of (n + 32) else c)"

definition lower :: "string \<Rightarrow> string" where
  "lower s = map lower_char s"

definition strip :: "string \<Rightarrow> string" where
  "strip s = rev (dropWhile is_space (rev (dropWhile is_space s)))"

definition startswith :: "string \<Rightarrow> string \<Rightarrow> bool" where
  "startswith s p \<longleftrightarrow> take (length p) s = p"

definition endswith :: "string \<Rightarrow> string \<Rightarrow> bool" where
  "endswith s p \<longleftrightarrow> length p \<le> length s \<and> drop (length s - length p) s = p"

text \<open>\<^verbatim>\<open>s.endswith((p1, p2, ...))\<close> with a tuple of suffixes.\<close>

definition endswith_any :: "string \<Rightarrow> string list \<Rightarrow> bool" where
  "endswith_any s ps \<longleftrightarrow> list_ex (endswith s) ps"

text \<open>\<^verbatim>\<open>sub in s\<close> on strings.\<close>

fun contains :: "string \<Rightarrow> string \<Rightarrow> bool" where
  "contains [] sub = (sub = [])"
| "contains (c # cs) sub = (startswith (c # cs) sub \<or> contains cs sub)"

text \<open>
  \<^verbatim>\<open>str.splitlines()\<close>: a line ends at \<^verbatim>\<open>\r\n\<close>, or at one of the code points 10 to 13,
  28 to 30 and 133; the ends are dropped, and a text that ends with a line end has no
  empty last line.
\<close>

definition is_linebreak :: "char \<Rightarrow> bool" where
  "is_linebreak c = ((of_char c :: nat) \<in> {10, 11, 12, 13, 28, 29, 30, 133})"

fun splitlines_from :: "string \<Rightarrow> string \<Rightarrow> string list" where
  "splitlines_from cur [] = (if cur = [] then [] else [rev cur])"
| "splitlines_from cur [c] = (if is_linebreak c then [rev cur] else [rev (c # cur)])"
| "splitlines_from cur (c # d # cs) =
     (if c = CHR 0x0D \<and> d = CHR 0x0A then rev cur # splitlines_from [] cs
      else if is_linebreak c then rev cur # splitlines_from [] (d # cs)
      else splitlines_from (c # cur) (d # cs))"

definition splitlines :: "string \<Rightarrow> string list" where
  "splitlines s = splitlines_from [] s"

text \<open>\<^verbatim>\<open>s.split('=', 1)[-1]\<close>: what follows the first \<^verbatim>\<open>=\<close>, or all of \<open>s\<close> without one.\<close>

definition split_eq_last :: "string \<Rightarrow> string" where
  "split_eq_last s =
     (if CHR ''='' \<in> set s then tl (dropWhile (\<lambda>c. c \<noteq> CHR ''='') s) else s)"

text \<open>\<^verbatim>\<open>s.split(c)\<close> for a one-character separator, and \<^verbatim>\<open>sep.join(parts)\<close>.\<close>

fun split_on :: "char \<Rightarrow> string \<Rightarrow> string list" where
  "split_on c [] = [[]]"
| "split_on c (x # xs) =
     (if x = c then [] # split_on c xs
      else (case split_on c xs of
              [] \<Rightarrow> [[x]]
            | r # rs \<Rightarrow> (x # r) # rs))"

fun join_sep :: "string \<Rightarrow> string list \<Rightarrow> string" where
  "join_sep sep [] = []"
| "join_sep sep [p] = p"
| "join_sep sep (p # q # ps) = p @ sep @ join_sep sep (q # ps)"

subsection \<open>Decimal numbers\<close>

text \<open>
  \<^verbatim>\<open>str(i)\<close> of an integer, and the format \<^verbatim>\<open>{i:02d}\<close>: at least two characters, a
  non-negative number below 10 padded with one zero, the sign counted in the width.
\<close>

definition digit_char :: "nat \<Rightarrow> char" where
  "digit_char d = char_of (48 + d)"

fun digits :: "nat \<Rightarrow> string" where
  "digits n = (if n < 10 then [digit_char n] else digits (n div 10) @ [digit_char (n mod 10)])"

declare digits.simps [simp del]

definition str_int :: "int \<Rightarrow> string" where
  "str_int i = (if i < 0 then CHR ''-'' # digits (nat (- i)) else digits (nat i))"

definition format_02d :: "int \<Rightarrow> string" where
  "format_02d i = (if 0 \<le> i \<and> i < 10 then CHR ''0'' # str_int i else str_int i)"

text \<open>Reading a decimal number back, to show that the formats lose nothing.\<close>

definition digit_val :: "char \<Rightarrow> nat" where
  "digit_val c = of_char c - 48"

definition parse_nat :: "string \<Rightarrow> nat" where
  "parse_nat s = foldl (\<lambda>a c. 10 * a + digit_val c) 0 s"

definition parse_int :: "string \<Rightarrow> int" where
  "parse_int s =
     (case s of
        [] \<Rightarrow> 0
      | c # cs \<Rightarrow> if c = CHR ''-'' then - int (parse_nat cs) else int (parse_nat s))"

subsection \<open>Dictionaries in insertion order\<close>

text \<open>
  A \<^verbatim>\<open>dict\<close> whose iteration order matters is an association list; \<^verbatim>\<open>d[k] = v\<close> is
  \<open>AList.update\<close>: an old key keeps its place, a new key goes last. A well-formed
  dictionary has each key once.
\<close>

type_synonym ('k, 'v) dict = "('k \<times> 'v) list"

definition dict_wf :: "('k, 'v) dict \<Rightarrow> bool" where
  "dict_wf d \<longleftrightarrow> distinct (map fst d)"

text \<open>\<^verbatim>\<open>d.update(other)\<close>.\<close>

definition dict_update :: "('k, 'v) dict \<Rightarrow> ('k, 'v) dict \<Rightarrow> ('k, 'v) dict" where
  "dict_update d other = fold (\<lambda>(k, v) acc. AList.update k v acc) other d"

text \<open>\<^verbatim>\<open>d.get(k, {})\<close> on a dictionary of dictionaries.\<close>

definition dict_get_dict :: "('k, ('a, 'b) dict) dict \<Rightarrow> 'k \<Rightarrow> ('a, 'b) dict" where
  "dict_get_dict d k = (case map_of d k of None \<Rightarrow> [] | Some v \<Rightarrow> v)"

section \<open>arabic\_radio\_recorder.py: ArabicRadioStations\<close>

record ArabicRadioStations =
  stations_by_country :: "(string, (string, string) dict) dict"
  stations_by_city :: "(string, (string, string) dict) dict"
  city_country_map :: "(string, string) dict"

definition ArabicRadioStations_init :: ArabicRadioStations where
  "ArabicRadioStations_init =
     \<lparr>stations_by_country = [], stations_by_city = [], city_country_map = []\<rparr>"

definition get_all_stations :: "ArabicRadioStations \<Rightarrow> (string, string) dict" where
  "get_all_stations r =
     (let all_stations = [];
          all_stations = fold (\<lambda>st acc. dict_update acc st) (map snd (stations_by_country r)) all_stations;
          all_stations = fold (\<lambda>st acc. dict_update acc st) (map snd (stations_by_city r)) all_stations
      in all_stations)"

definition get_stations_by_city :: "ArabicRadioStations \<Rightarrow> string \<Rightarrow> (string, string) dict" where
  "get_stations_by_city r city = dict_get_dict (stations_by_city r) (lower city)"

section \<open>arabic\_radio\_recorder.py and check\_all.py: verifying streams\<close>

text \<open>
  The network and the libraries that reach it are parameters. \<^verbatim>\<open>urlparse\<close> gives the
  scheme and the path of a URL, or raises; \<^verbatim>\<open>requests.get\<close> and \<^verbatim>\<open>requests.head\<close>
  take the URL and the timeout and give a response, or raise. A response has its
  status code, its decoded body (\<^verbatim>\<open>.text\<close>) and the chunks \<^verbatim>\<open>iter_content\<close> yields, where reading
  a chunk can raise too.
\<close>

record parsed_url =
  scheme :: string
  path :: string

record response =
  status_code :: int
  resp_text :: string
  iter_content :: "(exc + string) list"

record net =
  urlparse :: "string \<Rightarrow> exc + parsed_url"
  requests_get :: "string \<Rightarrow> int \<Rightarrow> exc + response"
  requests_head :: "string \<Rightarrow> int \<Rightarrow> exc + response"

text \<open>The body of the \<^verbatim>\<open>try\<close> of \<^verbatim>\<open>verify_stream_url\<close>; \<open>Inl\<close> is an exception raised in it.\<close>

definition verify_stream_url_try :: "net \<Rightarrow> string \<Rightarrow> int \<Rightarrow> exc + bool" where
  "verify_stream_url_try n url timeout =
     (case urlparse n url of
        Inl e \<Rightarrow> Inl e
      | Inr parsed_url \<Rightarrow>
          if scheme parsed_url \<in> set [''http'', ''https''] then
            if endswith_any url [''.m3u8'', ''.m3u'', ''.pls''] then
              (case requests_head n url timeout of
                 Inl e \<Rightarrow> Inl e
               | Inr response \<Rightarrow> Inr (status_code response = 200))
            else
              (case requests_get n url timeout of
                 Inl e \<Rightarrow> Inl e
               | Inr response \<Rightarrow>
                   if status_code response = 200 then
                     (case iter_content response of
                        [] \<Rightarrow> Inr False
                      | Inl e # _ \<Rightarrow> Inl e
                      | Inr chunk # _ \<Rightarrow> if chunk \<noteq> [] then Inr True else Inr False)
                   else Inr False)
          else Inr True)"

text \<open>\<^verbatim>\<open>except Exception: return False\<close> around it.\<close>

definition verify_stream_url :: "net \<Rightarrow> string \<Rightarrow> int \<Rightarrow> exc + bool" where
  "verify_stream_url n url timeout =
     (case verify_stream_url_try n url timeout of
        Inl e \<Rightarrow> Inr False
      | Inr b \<Rightarrow> Inr b)"

text \<open>The copy of the function in \<^verbatim>\<open>check_all.py\<close>.\<close>

definition check_all_verify_stream_url :: "net \<Rightarrow> string \<Rightarrow> int \<Rightarrow> exc + bool" where
  "check_all_verify_stream_url n url timeout =
     (case
        (case urlparse n url of
           Inl e \<Rightarrow> Inl e
         | Inr parsed \<Rightarrow>
             if scheme parsed \<in> set [''http'', ''https''] then
               if endswith_any url [''.m3u8'', ''.m3u'', ''.pls''] then
                 (case requests_head n url timeout of
                    Inl e \<Rightarrow> Inl e
                  | Inr resp \<Rightarrow> Inr (status_code resp = 200))
               else
                 (case requests_get n url timeout of
                    Inl e \<Rightarrow> Inl e
                  | Inr resp \<Rightarrow>
                      if status_code resp = 200 then
                        (case iter_content resp of
                           [] \<Rightarrow> Inr False
                         | Inl e # _ \<Rightarrow> Inl e
                         | Inr chunk # _ \<Rightarrow> if chunk \<noteq> [] then Inr True else Inr False)
                      else Inr False)
             else Inr True)
      of Inl e \<Rightarrow> Inr False
       | Inr b \<Rightarrow> Inr b)"

text \<open>
  \<^verbatim>\<open>verify_stations_health\<close>. Each station's probe runs in a thread of the pool and sees
  the network as it is then: \<open>nets sid\<close>. A future is the station id with what its
  call returned or raised; \<^verbatim>\<open>as_completed\<close>, a parameter, gives the futures in their
  order of completion. \<^verbatim>\<open>ThreadPoolExecutor\<close> raises \<^verbatim>\<open>ValueError\<close> for
  \<^verbatim>\<open>max_workers <= 0\<close>, \<^verbatim>\<open>future.result()\<close> raises what the call raised, and
  \<^verbatim>\<open>stations_dict[sid]\<close> raises \<^verbatim>\<open>KeyError\<close> for a missing key.
\<close>

type_synonym future = "string \<times> (exc + bool)"

fun collect_working ::
  "(string, string) dict \<Rightarrow> future list \<Rightarrow> (string, string) dict \<Rightarrow> exc + (string, string) dict" where
  "collect_working stations_dict [] working = Inr working"
| "collect_working stations_dict ((sid, res) # futures) working =
     (case res of
        Inl e \<Rightarrow> Inl e
      | Inr ok \<Rightarrow>
          if ok then
            (case map_of stations_dict sid of
               None \<Rightarrow> Inl KeyError
             | Some url \<Rightarrow> collect_working stations_dict futures (AList.update sid url working))
          else collect_working stations_dict futures working)"

definition submit_all :: "(string \<Rightarrow> net) \<Rightarrow> (string, string) dict \<Rightarrow> future list" where
  "submit_all nets stations_dict =
     map (\<lambda>(sid, url). (sid, verify_stream_url (nets sid) url 5)) stations_dict"

definition verify_stations_health ::
  "(string \<Rightarrow> net) \<Rightarrow> (future list \<Rightarrow> future list) \<Rightarrow> (string, string) dict \<Rightarrow> int
     \<Rightarrow> exc + (string, string) dict" where
  "verify_stations_health nets as_completed stations_dict max_workers =
     (if max_workers \<le> 0 then Inl ValueError
      else collect_working stations_dict (as_completed (submit_all nets stations_dict)) [])"

section \<open>arabic\_radio\_recorder.py: extracting a stream URL from a play page\<close>

subsection \<open>Regular expressions\<close>

text \<open>
  The fragment of Python's \<^verbatim>\<open>re\<close> the patterns of the source use, matched the way
  \<^verbatim>\<open>re\<close> matches: by backtracking, a repetition taking as much as it can first and an
  alternation trying its branches left to right. \<open>UrlChar\<close> is the class
  \<^verbatim>\<open>[^\s'"]\<close>. Every search of the source passes \<^verbatim>\<open>re.IGNORECASE\<close>, so a literal
  matches a character with the same lower-case form. \<open>rmatch r s k\<close> matches \<open>r\<close> at
  the start of \<open>s\<close> and hands what is left of \<open>s\<close> to the continuation \<open>k\<close>, which
  matches the rest of the pattern.
\<close>

datatype regex =
    Eps
  | Lit char
  | UrlChar
  | Seq regex regex
  | Alt regex regex
  | Opt regex
  | Star regex
  | Plus regex

definition is_url_char :: "char \<Rightarrow> bool" where
  "is_url_char c \<longleftrightarrow> \<not> is_space c \<and> c \<noteq> CHR 0x27 \<and> c \<noteq> CHR 0x22"

fun rmatch :: "regex \<Rightarrow> string \<Rightarrow> (string \<Rightarrow> string option) \<Rightarrow> string option" where
  "rmatch Eps s k = k s"
| "rmatch (Lit c) s k =
     (case s of [] \<Rightarrow> None | x # xs \<Rightarrow> if lower_char x = lower_char c then k xs else None)"
| "rmatch UrlChar s k =
     (case s of [] \<Rightarrow> None | x # xs \<Rightarrow> if is_url_char x then k xs else None)"
| "rmatch (Seq a b) s k = rmatch a s (\<lambda>s'. rmatch b s' k)"
| "rmatch (Alt a b) s k = (case rmatch a s k of Some r \<Rightarrow> Some r | None \<Rightarrow> rmatch b s k)"
| "rmatch (Opt a) s k = (case rmatch a s k of Some r \<Rightarrow> Some r | None \<Rightarrow> k s)"
| "rmatch (Star a) s k =
     (case rmatch a s (\<lambda>s'. if length s' < length s then rmatch (Star a) s' k else None) of
        Some r \<Rightarrow> Some r
      | None \<Rightarrow> k s)"
| "rmatch (Plus a) s k =
     rmatch a s (\<lambda>s'. if length s' < length s then rmatch (Star a) s' k else None)"

text \<open>A word of the pattern: its characters in sequence.\<close>

definition lit :: "string \<Rightarrow> regex" where
  "lit s = foldr (\<lambda>c r. Seq (Lit c) r) s Eps"

text \<open>The text a match at the start of \<open>s\<close> covers: \<^verbatim>\<open>match.group(1)\<close>, as every
  pattern of the source is one group.\<close>

definition match_at :: "regex \<Rightarrow> string \<Rightarrow> string option" where
  "match_at r s = map_option (\<lambda>rest. take (length s - length rest) s) (rmatch r s Some)"

text \<open>\<^verbatim>\<open>re.search\<close>: the match at the leftmost position that has one.\<close>

fun re_search :: "regex \<Rightarrow> string \<Rightarrow> string option" where
  "re_search r [] = match_at r []"
| "re_search r (c # cs) =
     (case match_at r (c # cs) of Some m \<Rightarrow> Some m | None \<Rightarrow> re_search r cs)"

text \<open>\<^verbatim>\<open>https?://\<close>, the start of all the patterns.\<close>

definition url_start :: regex where
  "url_start = Seq (lit ''http'') (Seq (Opt (Lit CHR ''s'')) (lit ''://''))"

text \<open>\<^verbatim>\<open>(https?://[^\s'"]+\.(mp3|m3u8|aac|pls))\<close>\<close>

definition ext_pattern :: regex where
  "ext_pattern =
     Seq url_start (Seq (Plus UrlChar) (Seq (Lit CHR ''.'')
       (Alt (lit ''mp3'') (Alt (lit ''m3u8'') (Alt (lit ''aac'') (lit ''pls''))))))"

text \<open>\<^verbatim>\<open>(https?://[^\s'"]+KEYWORD[^\s'"]*)\<close>\<close>

definition keyword_pattern :: "string \<Rightarrow> regex" where
  "keyword_pattern kw = Seq url_start (Seq (Plus UrlChar) (Seq (lit kw) (Star UrlChar)))"

text \<open>The list \<^verbatim>\<open>patterns\<close> of the loop over the script tags.\<close>

definition script_patterns :: "regex list" where
  "script_patterns =
     [ext_pattern, keyword_pattern ''stream'', keyword_pattern ''listen'',
      keyword_pattern ''radio'', keyword_pattern ''live'']"

text \<open>The list \<^verbatim>\<open>patterns\<close> of the scan of \<^verbatim>\<open>response.text\<close>.\<close>

definition content_patterns :: "regex list" where
  "content_patterns =
     [ext_pattern, keyword_pattern ''stream'', keyword_pattern ''listen'']"

text \<open>\<^verbatim>\<open>for pattern in patterns: match = re.search(...); if match: return match.group(1)\<close>\<close>

fun first_match :: "regex list \<Rightarrow> string \<Rightarrow> string option" where
  "first_match [] t = None"
| "first_match (pattern # patterns) t =
     (case re_search pattern t of Some m \<Rightarrow> Some m | None \<Rightarrow> first_match patterns t)"

subsection \<open>The parsed page\<close>

text \<open>
  What the function asks of the page \<^verbatim>\<open>BeautifulSoup\<close> parsed: for the first
  \<^verbatim>\<open>audio\<close> element, its first \<^verbatim>\<open>source\<close> element and that one's \<^verbatim>\<open>src\<close> attribute,
  each of which can be missing; the \<^verbatim>\<open>src\<close> attribute of each \<^verbatim>\<open>iframe\<close>, if it has
  one; the \<^verbatim>\<open>href\<close> of each \<^verbatim>\<open>a\<close> element that has one; and the \<^verbatim>\<open>string\<close> of each
  \<^verbatim>\<open>script\<close> element, which can be \<^verbatim>\<open>None\<close>. The parser is a parameter.
\<close>

record soup =
  audio :: "string option option option"
  iframes :: "string option list"
  links :: "string list"
  scripts :: "string option list"

definition find_audio_src :: "soup \<Rightarrow> string option" where
  "find_audio_src sp =
     (case audio sp of
        Some (Some (Some src)) \<Rightarrow> Some src
      | _ \<Rightarrow> None)"

fun scan_iframes :: "string option list \<Rightarrow> string option" where
  "scan_iframes [] = None"
| "scan_iframes (iframe # rest) =
     (case iframe of
        None \<Rightarrow> scan_iframes rest
      | Some src \<Rightarrow>
          if startswith src ''http''
             \<and> list_ex (\<lambda>ext. contains src ext) [''.mp3'', ''.m3u8'', ''.aac'', ''.pls'']
          then Some src
          else scan_iframes rest)"

fun scan_links :: "string list \<Rightarrow> string option" where
  "scan_links [] = None"
| "scan_links (href # rest) =
     (if endswith_any href [''.mp3'', ''.m3u8'', ''.aac'', ''.pls'']
         \<or> contains href ''stream'' \<or> contains href ''listen''
      then (if startswith href ''http'' then Some href
            else Some (''https://worldradiomap.com'' @ href))
      else scan_links rest)"

fun scan_scripts :: "string option list \<Rightarrow> string option" where
  "scan_scripts [] = None"
| "scan_scripts (script # rest) =
     (case script of
        None \<Rightarrow> scan_scripts rest
      | Some str \<Rightarrow>
          if str \<noteq> [] then
            (case first_match script_patterns str of
               Some m \<Rightarrow> Some m
             | None \<Rightarrow> scan_scripts rest)
          else scan_scripts rest)"

text \<open>The scan of the page content, the last step.\<close>

definition scan_content :: "string \<Rightarrow> string option" where
  "scan_content content = first_match content_patterns content"

text \<open>The body of the \<^verbatim>\<open>try\<close>; the result \<open>None\<close> is Python's \<^verbatim>\<open>None\<close>.\<close>

definition extract_direct_stream_url_try ::
  "net \<Rightarrow> (string \<Rightarrow> exc + soup) \<Rightarrow> string \<Rightarrow> exc + string option" where
  "extract_direct_stream_url_try n beautiful_soup play_page_url =
     (case requests_get n play_page_url 10 of
        Inl e \<Rightarrow> Inl e
      | Inr response \<Rightarrow>
          if status_code response \<noteq> 200 then Inr None
          else
            (case beautiful_soup (resp_text response) of
               Inl e \<Rightarrow> Inl e
             | Inr sp \<Rightarrow>
                 (case find_audio_src sp of
                    Some src \<Rightarrow> Inr (Some src)
                  | None \<Rightarrow>
                 (case scan_iframes (iframes sp) of
                    Some src \<Rightarrow> Inr (Some src)
                  | None \<Rightarrow>
                 (case scan_links (links sp) of
                    Some href \<Rightarrow> Inr (Some href)
                  | None \<Rightarrow>
                 (case scan_scripts (scripts sp) of
                    Some m \<Rightarrow> Inr (Some m)
                  | None \<Rightarrow> Inr (scan_content (resp_text response))))))))"

definition extract_direct_stream_url ::
  "net \<Rightarrow> (string \<Rightarrow> exc + soup) \<Rightarrow> string \<Rightarrow> exc + string option" where
  "extract_direct_stream_url n beautiful_soup play_page_url =
     (case extract_direct_stream_url_try n beautiful_soup play_page_url of
        Inl e \<Rightarrow> Inr None
      | Inr r \<Rightarrow> Inr r)"

section \<open>arabic\_radio\_recorder.py: record\_stream\<close>

text \<open>
  What \<^verbatim>\<open>record_stream\<close> and the recorder reach outside the program: the network, the
  HTML parser, the file system, the clock, the encoder process, the random generator
  and the scheduling library. The probes of \<^verbatim>\<open>verify_stations_health\<close> see the network
  \<open>w_nets\<close> per station and complete in the order \<open>w_as_completed\<close>.
\<close>

record world =
  w_web :: net
  w_beautiful_soup :: "string \<Rightarrow> exc + soup"
  w_makedirs :: "string \<Rightarrow> exc + unit"
  w_utcnow :: string
  w_subprocess_run :: "string list \<Rightarrow> exc + unit"
  w_nets :: "string \<Rightarrow> net"
  w_as_completed :: "future list \<Rightarrow> future list"
  w_now_str :: string
  w_open_log :: "exc + unit"
  w_json_cities :: "exc + string list"
  w_shuffle :: "string list \<Rightarrow> string list"
  w_at_accepts :: "string \<Rightarrow> bool"
  w_next_daily_run :: "nat \<Rightarrow> string \<Rightarrow> int"

text \<open>\<^verbatim>\<open>os.path.join\<close> of two parts, on POSIX.\<close>

definition path_join :: "string \<Rightarrow> string \<Rightarrow> string" where
  "path_join a b =
     (if startswith b ''/'' then b
      else if a = [] \<or> endswith a ''/'' then a @ b
      else a @ ''/'' @ b)"

text \<open>
  The text of a \<^verbatim>\<open>pathlib\<close> path made from a string, on POSIX: the root is \<^verbatim>\<open>//\<close>
  for exactly two leading slashes and \<^verbatim>\<open>/\<close> for any other number of them; empty
  components and \<^verbatim>\<open>.\<close> components are dropped; a path with neither root nor
  components is \<^verbatim>\<open>.\<close>.
\<close>

definition pure_posix_path :: "string \<Rightarrow> string" where
  "pure_posix_path p =
     (let root = (if \<not> startswith p ''/'' then []
                  else if startswith p ''//'' \<and> \<not> startswith p ''///'' then ''//''
                  else ''/'');
          parts = filter (\<lambda>x. x \<noteq> [] \<and> x \<noteq> ''.'') (split_on CHR ''/'' p)
      in if root = [] \<and> parts = [] then ''.''
         else root @ join_sep ''/'' parts)"

text \<open>\<^verbatim>\<open>resp.raise_for_status()\<close>: an HTTPError for a status from 400 to 599.\<close>

definition raise_for_status :: "response \<Rightarrow> exc + unit" where
  "raise_for_status resp =
     (if 400 \<le> status_code resp \<and> status_code resp < 600 then Inl HTTPError else Inr ())"

text \<open>The loop over the lines of a \<^verbatim>\<open>.pls\<close> file; \<open>None\<close> when it ends without a \<^verbatim>\<open>break\<close>.\<close>

fun parse_pls :: "string list \<Rightarrow> string option" where
  "parse_pls [] = None"
| "parse_pls (line # rest) =
     (let line = strip line in
      if startswith (lower line) ''file1='' then
        (let candidate = strip (split_eq_last line) in
         if startswith (lower candidate) ''http'' then Some candidate
         else parse_pls rest)
      else parse_pls rest)"

text \<open>The loop over the lines of a \<^verbatim>\<open>.m3u\<close> file.\<close>

fun parse_m3u :: "string list \<Rightarrow> string option" where
  "parse_m3u [] = None"
| "parse_m3u (line # rest) =
     (let line = strip line in
      if startswith line ''http'' then Some line
      else parse_m3u rest)"

text \<open>The shape of a line each loop looks for.\<close>

definition pls_line_matches :: "string \<Rightarrow> bool" where
  "pls_line_matches line \<longleftrightarrow>
     startswith (lower (strip line)) ''file1=''
     \<and> startswith (lower (strip (split_eq_last (strip line)))) ''http''"

definition m3u_line_matches :: "string \<Rightarrow> bool" where
  "m3u_line_matches line \<longleftrightarrow> startswith (strip line) ''http''"

text \<open>
  The shape of a line as the specification words it, to compare with the tests of the
  code: a value or a line that starts with an HTTP scheme, \<^verbatim>\<open>http://\<close> or
  \<^verbatim>\<open>https://\<close>, in upper or lower case.
\<close>

definition starts_with_http_scheme :: "string \<Rightarrow> bool" where
  "starts_with_http_scheme s \<longleftrightarrow>
     startswith (lower s) ''http://'' \<or> startswith (lower s) ''https://''"

definition spec_pls_line_shape :: "string \<Rightarrow> bool" where
  "spec_pls_line_shape line \<longleftrightarrow>
     startswith (lower (strip line)) ''file1=''
     \<and> starts_with_http_scheme (strip (split_eq_last (strip line)))"

definition spec_m3u_line_shape :: "string \<Rightarrow> bool" where
  "spec_m3u_line_shape line \<longleftrightarrow> starts_with_http_scheme (strip line)"

text \<open>The body of the \<^verbatim>\<open>try\<close> of the playlist stage; it gives the new value of \<open>url\<close>.\<close>

definition record_stream_playlist_try :: "net \<Rightarrow> string \<Rightarrow> parsed_url \<Rightarrow> exc + string" where
  "record_stream_playlist_try n url parsed =
     (case requests_get n url 10 of
        Inl e \<Rightarrow> Inl e
      | Inr resp \<Rightarrow>
          (case raise_for_status resp of
             Inl e \<Rightarrow> Inl e
           | Inr _ \<Rightarrow>
               (let content = resp_text resp in
                if endswith (path parsed) ''.pls'' then
                  (case parse_pls (splitlines content) of
                     Some candidate \<Rightarrow> Inr candidate
                   | None \<Rightarrow> Inr url)
                else if endswith (path parsed) ''.m3u'' then
                  (case parse_m3u (splitlines content) of
                     Some line \<Rightarrow> Inr line
                   | None \<Rightarrow> Inr url)
                else Inr url)))"

text \<open>The playlist stage: \<^verbatim>\<open>except Exception\<close> logs and leaves \<open>url\<close> as it was.\<close>

definition record_stream_playlist_stage :: "net \<Rightarrow> string \<Rightarrow> parsed_url \<Rightarrow> exc + string" where
  "record_stream_playlist_stage n url parsed =
     (if endswith (path parsed) ''.pls'' \<or> endswith (path parsed) ''.m3u'' then
        (case record_stream_playlist_try n url parsed of
           Inl e \<Rightarrow> Inr url
         | Inr u \<Rightarrow> Inr u)
      else Inr url)"

text \<open>The stage before it, for an HTML page; it gives the new \<open>url\<close> and \<open>parsed\<close>.\<close>

definition record_stream_html_stage ::
  "world \<Rightarrow> string \<Rightarrow> parsed_url \<Rightarrow> exc + (string \<times> parsed_url)" where
  "record_stream_html_stage w url parsed =
     (if endswith (path parsed) ''.htm'' \<or> endswith (path parsed) ''.html'' then
        (case extract_direct_stream_url (w_web w) (w_beautiful_soup w) url of
           Inl e \<Rightarrow> Inl e
         | Inr actual_url \<Rightarrow>
             (case actual_url of
                None \<Rightarrow> Inl RuntimeError
              | Some u \<Rightarrow>
                  if u \<noteq> [] then
                    (case urlparse (w_web w) u of
                       Inl e \<Rightarrow> Inl e
                     | Inr p \<Rightarrow> Inr (u, p))
                  else Inl RuntimeError))
      else Inr (url, parsed))"

definition ffmpeg_cmd :: "string \<Rightarrow> int \<Rightarrow> string \<Rightarrow> string list" where
  "ffmpeg_cmd url seconds out_file =
     [''ffmpeg'', ''-y'', ''-hide_banner'', ''-loglevel'', ''info'',
      ''-i'', url,
      ''-t'', str_int seconds,
      ''-c:a'', ''libmp3lame'',
      ''-b:a'', ''128k'',
      out_file]"

text \<open>
  \<^verbatim>\<open>pathlib.Path(folder) / f"radio_{ts}.mp3"\<close>, as the text \<^verbatim>\<open>as_posix()\<close> and
  \<^verbatim>\<open>str\<close> give: the two parts joined and the path normalised.
\<close>

definition out_file_name :: "world \<Rightarrow> string \<Rightarrow> string" where
  "out_file_name w folder =
     pure_posix_path (path_join folder (''radio_'' @ w_utcnow w @ ''.mp3''))"

definition record_stream :: "world \<Rightarrow> string \<Rightarrow> int \<Rightarrow> string \<Rightarrow> exc + string" where
  "record_stream w url seconds folder =
     (case w_makedirs w folder of
        Inl e \<Rightarrow> Inl e
      | Inr _ \<Rightarrow>
     (let out_file = out_file_name w folder in
      case urlparse (w_web w) url of
        Inl e \<Rightarrow> Inl e
      | Inr parsed \<Rightarrow>
     (case record_stream_html_stage w url parsed of
        Inl e \<Rightarrow> Inl e
      | Inr (url, parsed) \<Rightarrow>
     (case record_stream_playlist_stage (w_web w) url parsed of
        Inl e \<Rightarrow> Inl e
      | Inr url \<Rightarrow>
     (case w_subprocess_run w (ffmpeg_cmd url seconds out_file) of
        Inl e \<Rightarrow> Inl e
      | Inr _ \<Rightarrow> Inr out_file)))))"

section \<open>scheduled\_recorder.py: StationMonitor\<close>

text \<open>
  The fields of \<^verbatim>\<open>StationMonitor.__init__\<close>. Timestamps
  (\<^verbatim>\<open>datetime.datetime.now()\<close>) are natural numbers supplied by the caller.
\<close>

record station_monitor =
  max_retries :: int
  retry_delay :: int
  failed_stations :: "string \<rightharpoonup> int"
  working_stations :: "string set"
  last_verification :: "string \<rightharpoonup> nat"

definition StationMonitor_init :: "int \<Rightarrow> int \<Rightarrow> station_monitor" where
  "StationMonitor_init mr rd =
     \<lparr>max_retries = mr, retry_delay = rd, failed_stations = Map.empty,
      working_stations = {}, last_verification = Map.empty\<rparr>"

text \<open>The defaults of the constructor: \<^verbatim>\<open>max_retries=3, retry_delay=300\<close>.\<close>

definition StationMonitor_default :: station_monitor where
  "StationMonitor_default = StationMonitor_init 3 300"

definition mark_failed :: "string \<Rightarrow> station_monitor \<Rightarrow> station_monitor" where
  "mark_failed station_id m =
     (let w = (if station_id \<in> working_stations m
               then working_stations m - {station_id}
               else working_stations m)
      in m\<lparr>working_stations := w,
            failed_stations :=
              (failed_stations m)(station_id \<mapsto> dict_get (failed_stations m) station_id 0 + 1)\<rparr>)"

definition mark_working :: "nat \<Rightarrow> string \<Rightarrow> station_monitor \<Rightarrow> station_monitor" where
  "mark_working now station_id m =
     m\<lparr>working_stations := insert station_id (working_stations m),
       failed_stations :=
         (if failed_stations m station_id \<noteq> None
          then (failed_stations m)(station_id := None)
          else failed_stations m),
       last_verification := (last_verification m)(station_id \<mapsto> now)\<rparr>"

definition should_retry :: "station_monitor \<Rightarrow> string \<Rightarrow> bool" where
  "should_retry m station_id \<longleftrightarrow> dict_get (failed_stations m) station_id 0 < max_retries m"

definition get_retry_delay :: "station_monitor \<Rightarrow> string \<Rightarrow> int" where
  "get_retry_delay m station_id =
     retry_delay m * (dict_get (failed_stations m) station_id 0 + 1)"

text \<open>
  A caller's sequence of \<^verbatim>\<open>mark_working\<close> and \<^verbatim>\<open>mark_failed\<close> calls on one
  monitor, run in order from a state.
\<close>

datatype monitor_call = MarkWorking nat string | MarkFailed string

fun apply_call :: "monitor_call \<Rightarrow> station_monitor \<Rightarrow> station_monitor" where
  "apply_call (MarkWorking now sid) m = mark_working now sid m"
| "apply_call (MarkFailed sid) m = mark_failed sid m"

fun run_calls :: "monitor_call list \<Rightarrow> station_monitor \<Rightarrow> station_monitor" where
  "run_calls [] m = m"
| "run_calls (c # cs) m = run_calls cs (apply_call c m)"

text \<open>The failure count the monitor's queries read: 0 for a station with no entry.\<close>

definition failure_count :: "station_monitor \<Rightarrow> string \<Rightarrow> int" where
  "failure_count m sid = dict_get (failed_stations m) sid 0"

text \<open>The status of a station: in the working set, or a key of the failed map.\<close>

definition is_working :: "station_monitor \<Rightarrow> string \<Rightarrow> bool" where
  "is_working m sid \<longleftrightarrow> sid \<in> working_stations m"

definition is_failed :: "station_monitor \<Rightarrow> string \<Rightarrow> bool" where
  "is_failed m sid \<longleftrightarrow> failed_stations m sid \<noteq> None"

text \<open>\<open>n\<close> consecutive \<^verbatim>\<open>mark_failed\<close> calls for one station.\<close>

fun fail_times :: "nat \<Rightarrow> string \<Rightarrow> station_monitor \<Rightarrow> station_monitor" where
  "fail_times 0 sid m = m"
| "fail_times (Suc n) sid m = fail_times n sid (mark_failed sid m)"

text \<open>
  A station stays Failed along a run when it is Failed in the state the run starts
  from and after every call of the run.
\<close>

fun stays_failed :: "string \<Rightarrow> monitor_call list \<Rightarrow> station_monitor \<Rightarrow> bool" where
  "stays_failed sid [] m = is_failed m sid"
| "stays_failed sid (c # cs) m = (is_failed m sid \<and> stays_failed sid cs (apply_call c m))"

section \<open>scheduled\_recorder.py: ScheduledRecorder\<close>

subsection \<open>The scheduling library\<close>

text \<open>
  The jobs of the \<^verbatim>\<open>schedule\<close> module's default scheduler. \<^verbatim>\<open>every(n).<unit>.do(f, args)\<close>
  appends a job that is due every \<open>n\<close> units, first \<open>n\<close> units from now;
  \<^verbatim>\<open>every().day.at(t).do(f, args)\<close> appends a job due every day at the time \<open>t\<close>, and \<^verbatim>\<open>at\<close>
  raises for a string it does not accept. Which strings it accepts and when the time
  of day comes next are parameters (\<open>w_at_accepts\<close>, \<open>w_next_daily_run\<close>).
  \<^verbatim>\<open>run_pending()\<close> runs the jobs that are due, earliest first, and sets each one's next
  run after it ran; a job leaves the scheduler only when its function returns
  \<^verbatim>\<open>CancelJob\<close>, which no function of the source does. Times are seconds.
\<close>

datatype time_unit = Seconds | Minutes | Hours | Days

datatype job_func =
    RecordCity string
  | RetryRecording string string string
  | PrintStatusReport

record job =
  job_interval :: int
  job_unit :: time_unit
  at_time :: "string option"
  do_func :: job_func
  next_run :: int

definition period_seconds :: "job \<Rightarrow> int" where
  "period_seconds j =
     job_interval j *
       (case job_unit j of Seconds \<Rightarrow> 1 | Minutes \<Rightarrow> 60 | Hours \<Rightarrow> 3600 | Days \<Rightarrow> 86400)"

definition schedule_next_run :: "world \<Rightarrow> nat \<Rightarrow> job \<Rightarrow> job" where
  "schedule_next_run w now j =
     (case at_time j of
        Some t \<Rightarrow> j\<lparr>next_run := w_next_daily_run w now t\<rparr>
      | None \<Rightarrow> j\<lparr>next_run := int now + period_seconds j\<rparr>)"

subsection \<open>The recorder\<close>

text \<open>
  The fields of \<^verbatim>\<open>ScheduledRecorder\<close>, the rows of the CSV file \<^verbatim>\<open>log_file\<close> names
  (\<open>None\<close> while the file does not exist), and the jobs of the scheduler.
\<close>

record recorder =
  radio :: ArabicRadioStations
  base_output_dir :: string
  log_rows :: "string list list option"
  monitor :: station_monitor
  recording_times :: "(string, string) dict"
  jobs :: "job list"

definition schedule_do ::
  "world \<Rightarrow> nat \<Rightarrow> int \<Rightarrow> time_unit \<Rightarrow> string option \<Rightarrow> job_func \<Rightarrow> recorder \<Rightarrow> recorder" where
  "schedule_do w now n u t f st =
     st\<lparr>jobs := jobs st @
          [schedule_next_run w now
             \<lparr>job_interval = n, job_unit = u, at_time = t, do_func = f, next_run = 0\<rparr>]\<rparr>"

definition verify_all_stations :: "world \<Rightarrow> nat \<Rightarrow> recorder \<Rightarrow> exc + recorder" where
  "verify_all_stations w now st =
     (let all_stations = get_all_stations (radio st) in
      case verify_stations_health (w_nets w) (w_as_completed w) all_stations 5 of
        Inl e \<Rightarrow> Inl e
      | Inr working \<Rightarrow>
          Inr (st\<lparr>monitor :=
                 fold (\<lambda>sid m. if map_of working sid \<noteq> None
                                then mark_working now sid m
                                else mark_failed sid m)
                      (map fst all_stations) (monitor st)\<rparr>))"

definition get_cities :: "world \<Rightarrow> recorder \<Rightarrow> string list" where
  "get_cities w st =
     (let cities = map fst (stations_by_city (radio st)) in
      if cities = [] then
        (case w_json_cities w of
           Inl e \<Rightarrow> cities
         | Inr cs \<Rightarrow> cs)
      else cities)"

definition schedule_city_recording ::
  "world \<Rightarrow> nat \<Rightarrow> string \<Rightarrow> string \<Rightarrow> recorder \<Rightarrow> exc + recorder" where
  "schedule_city_recording w now city time_str st =
     (if w_at_accepts w time_str
      then Inr (schedule_do w now 1 Days (Some time_str) (RecordCity city) st)
      else Inl ScheduleValueError)"

definition log_recording ::
  "world \<Rightarrow> string \<Rightarrow> int \<Rightarrow> string \<Rightarrow> string \<Rightarrow> recorder \<Rightarrow> exc + recorder" where
  "log_recording w sound_filename duration time_recorded city st =
     (case w_open_log w of
        Inl e \<Rightarrow> Inl e
      | Inr _ \<Rightarrow>
          Inr (st\<lparr>log_rows :=
                 Some ((case log_rows st of
                          None \<Rightarrow> [[''Sound filename'', ''Duration (seconds)'', ''Time recorded'', ''City'']]
                        | Some rows \<Rightarrow> rows)
                       @ [[sound_filename, str_int duration, time_recorded, city]])\<rparr>))"

text \<open>
  The body of the \<^verbatim>\<open>try\<close> that \<^verbatim>\<open>record_city\<close> and \<^verbatim>\<open>retry_recording\<close> share: record,
  mark the station working, log. It gives the exception raised, if any, and the state
  at that point.
\<close>

definition try_record ::
  "world \<Rightarrow> nat \<Rightarrow> string \<Rightarrow> string \<Rightarrow> string \<Rightarrow> string \<Rightarrow> recorder \<Rightarrow> exc option \<times> recorder" where
  "try_record w now sid url city output_dir st =
     (let duration = 30 in
      case record_stream w url duration output_dir of
        Inl e \<Rightarrow> (Some e, st)
      | Inr out_file \<Rightarrow>
          (let st1 = st\<lparr>monitor := mark_working now sid (monitor st)\<rparr> in
           case log_recording w out_file duration (w_now_str w) city st1 of
             Inl e \<Rightarrow> (Some e, st1)
           | Inr st2 \<Rightarrow> (None, st2)))"

text \<open>One turn of the loop of \<^verbatim>\<open>record_city\<close> over the working stations.\<close>

definition record_city_station ::
  "world \<Rightarrow> nat \<Rightarrow> string \<Rightarrow> string \<Rightarrow> string \<times> string \<Rightarrow> recorder \<Rightarrow> recorder" where
  "record_city_station w now city output_dir station st =
     (case station of (sid, url) \<Rightarrow>
        (case try_record w now sid url city output_dir st of
           (None, st') \<Rightarrow> st'
         | (Some e, st') \<Rightarrow>
             (let st2 = st'\<lparr>monitor := mark_failed sid (monitor st')\<rparr> in
              if should_retry (monitor st2) sid then
                (let delay = get_retry_delay (monitor st2) sid in
                 schedule_do w now delay Seconds None (RetryRecording sid url city) st2)
              else st2)))"

definition record_city :: "world \<Rightarrow> nat \<Rightarrow> string \<Rightarrow> recorder \<Rightarrow> exc + recorder" where
  "record_city w now city st =
     (let output_dir = path_join (base_output_dir st) city in
      case w_makedirs w output_dir of
        Inl e \<Rightarrow> Inl e
      | Inr _ \<Rightarrow>
          (let stations = get_stations_by_city (radio st) city in
           if stations = [] then Inr st
           else
             (case verify_stations_health (w_nets w) (w_as_completed w) stations 5 of
                Inl e \<Rightarrow> Inl e
              | Inr working \<Rightarrow>
                  if working = [] then Inr st
                  else Inr (fold (record_city_station w now city output_dir) working st))))"

definition retry_recording ::
  "world \<Rightarrow> nat \<Rightarrow> string \<Rightarrow> string \<Rightarrow> string \<Rightarrow> recorder \<Rightarrow> recorder" where
  "retry_recording w now sid url city st =
     (let output_dir = path_join (base_output_dir st) city in
      case try_record w now sid url city output_dir st of
        (None, st') \<Rightarrow> st'
      | (Some e, st') \<Rightarrow> st'\<lparr>monitor := mark_failed sid (monitor st')\<rparr>)"

text \<open>The slot times of \<^verbatim>\<open>schedule_all_cities\<close>: \<^verbatim>\<open>f"{hour:02d}:{minute:02d}"\<close>.\<close>

definition time_str_of :: "int \<Rightarrow> string" where
  "time_str_of minutes =
     (let hour = minutes div 60; minute = minutes mod 60
      in format_02d hour @ '':'' @ format_02d minute)"

definition slot_times :: "int \<Rightarrow> int \<Rightarrow> int \<Rightarrow> string list" where
  "slot_times start_hour interval_minutes slots =
     map (\<lambda>i. time_str_of (start_hour * 60 + int i * interval_minutes)) [0..<nat slots]"

text \<open>The loop over \<^verbatim>\<open>zip(cities, times)\<close>.\<close>

fun assign_slots :: "world \<Rightarrow> nat \<Rightarrow> (string \<times> string) list \<Rightarrow> recorder \<Rightarrow> exc + recorder" where
  "assign_slots w now [] st = Inr st"
| "assign_slots w now ((city, time_str) # rest) st =
     (case schedule_city_recording w now city time_str st of
        Inl e \<Rightarrow> Inl e
      | Inr st' \<Rightarrow>
          assign_slots w now rest
            (st'\<lparr>recording_times := AList.update city time_str (recording_times st')\<rparr>))"

definition schedule_all_cities ::
  "world \<Rightarrow> nat \<Rightarrow> int \<Rightarrow> int \<Rightarrow> int \<Rightarrow> recorder \<Rightarrow> exc + recorder" where
  "schedule_all_cities w now start_hour end_hour interval_minutes st =
     (let cities = get_cities w st in
      if cities = [] then Inr st
      else
        (let total_minutes = (end_hour - start_hour) * 60 in
         if interval_minutes = 0 then Inl ZeroDivisionError
         else
           (let slots = total_minutes div interval_minutes;
                shrink = slots < int (length cities);
                interval_minutes = (if shrink then total_minutes div int (length cities)
                                    else interval_minutes);
                slots = (if shrink then int (length cities) else slots);
                times' = slot_times start_hour interval_minutes slots;
                times' = w_shuffle w times'
            in assign_slots w now (zip cities times') st)))"

text \<open>The job \<^verbatim>\<open>schedule_city_recording\<close> appends for a city and its time.\<close>

definition daily_job :: "world \<Rightarrow> nat \<Rightarrow> string \<times> string \<Rightarrow> job" where
  "daily_job w now p =
     \<lparr>job_interval = 1, job_unit = Days, at_time = Some (snd p), do_func = RecordCity (fst p),
      next_run = w_next_daily_run w now (snd p)\<rparr>"

subsection \<open>The timer loop\<close>

definition run_job :: "world \<Rightarrow> nat \<Rightarrow> job \<Rightarrow> recorder \<Rightarrow> exc + recorder" where
  "run_job w now j st =
     (case do_func j of
        RecordCity city \<Rightarrow> record_city w now city st
      | RetryRecording sid url city \<Rightarrow> Inr (retry_recording w now sid url city st)
      | PrintStatusReport \<Rightarrow> Inr st)"

text \<open>The positions, in the list of jobs, of the jobs that are due, earliest first.\<close>

definition runnable_jobs :: "nat \<Rightarrow> job list \<Rightarrow> nat list" where
  "runnable_jobs now js =
     sort_key (\<lambda>i. next_run (js ! i))
       (filter (\<lambda>i. next_run (js ! i) \<le> int now) [0..<length js])"

fun run_jobs :: "world \<Rightarrow> nat \<Rightarrow> nat list \<Rightarrow> recorder \<Rightarrow> exc + recorder" where
  "run_jobs w now [] st = Inr st"
| "run_jobs w now (i # rest) st =
     (case run_job w now (jobs st ! i) st of
        Inl e \<Rightarrow> Inl e
      | Inr st' \<Rightarrow>
          run_jobs w now rest
            (st'\<lparr>jobs := (jobs st')[i := schedule_next_run w now (jobs st' ! i)]\<rparr>))"

definition run_pending :: "world \<Rightarrow> nat \<Rightarrow> recorder \<Rightarrow> exc + recorder" where
  "run_pending w now st = run_jobs w now (runnable_jobs now (jobs st)) st"

text \<open>The loop of \<^verbatim>\<open>run\<close>, for the moments at which it wakes.\<close>

fun run_loop :: "world \<Rightarrow> nat list \<Rightarrow> recorder \<Rightarrow> exc + recorder" where
  "run_loop w [] st = Inr st"
| "run_loop w (now # ticks) st =
     (case run_pending w now st of
        Inl e \<Rightarrow> Inl e
      | Inr st' \<Rightarrow> run_loop w ticks st')"

section \<open>Example values\<close>

text \<open>
  A network in which every URL parses to the scheme http, every GET answers 200 with
  the chunks \<open>abc\<close> and then a failing read, and every HEAD times out; and one in which
  nothing parses.
\<close>

definition net_up :: net where
  "net_up =
     \<lparr>urlparse = (\<lambda>u. Inr \<lparr>scheme = ''http'', path = ''/live''\<rparr>),
      requests_get = (\<lambda>u t. Inr \<lparr>status_code = 200, resp_text = [],
                                  iter_content = [Inr ''abc'', Inl RequestException]\<rparr>),
      requests_head = (\<lambda>u t. Inl RequestException)\<rparr>"

definition net_down :: net where
  "net_down =
     \<lparr>urlparse = (\<lambda>u. Inl ValueError),
      requests_get = (\<lambda>u t. Inl RequestException),
      requests_head = (\<lambda>u t. Inl RequestException)\<rparr>"

definition nets_ab :: "string \<Rightarrow> net" where
  "nets_ab sid = (if sid = ''a'' then net_up else net_down)"

text \<open>
  Play pages in which the parser finds no audio element, iframe, link or script, so that
  only the text of the page is left to scan; their networks answer every GET with the
  page.
\<close>

definition soup_nothing :: "string \<Rightarrow> exc + soup" where
  "soup_nothing html = Inr \<lparr>audio = None, iframes = [], links = [], scripts = []\<rparr>"


text \<open>
  A \<^verbatim>\<open>.pls\<close> playlist that names no HTTP stream, served for every GET; a \<^verbatim>\<open>.m3u\<close>
  playlist whose one entry starts with \<open>http\<close> and has no scheme; and a world around
  the first in which directories can be made and the encoder succeeds.
\<close>

definition pls_body :: string where
  "pls_body = ''[playlist]'' @ [CHR 0x0A] @ ''Title1=x'' @ [CHR 0x0A] @ ''File1=ftp://x/a''"

definition net_playlist :: net where
  "net_playlist =
     \<lparr>urlparse = (\<lambda>u. Inr \<lparr>scheme = ''http'', path = ''/a.pls''\<rparr>),
      requests_get = (\<lambda>u t. Inr \<lparr>status_code = 200, resp_text = pls_body, iter_content = []\<rparr>),
      requests_head = (\<lambda>u t. Inl RequestException)\<rparr>"

definition m3u_body :: string where
  "m3u_body = ''#EXTM3U'' @ [CHR 0x0A] @ ''httpfoo''"

definition net_m3u :: net where
  "net_m3u =
     \<lparr>urlparse = (\<lambda>u. Inr \<lparr>scheme = ''http'', path = ''/a.m3u''\<rparr>),
      requests_get = (\<lambda>u t. Inr \<lparr>status_code = 200, resp_text = m3u_body, iter_content = []\<rparr>),
      requests_head = (\<lambda>u t. Inl RequestException)\<rparr>"

definition world_playlist :: world where
  "world_playlist =
     \<lparr>w_web = net_playlist,
      w_beautiful_soup = soup_nothing,
      w_makedirs = (\<lambda>d. Inr ()),
      w_utcnow = ''20240101_000000'',
      w_subprocess_run = (\<lambda>cmd. Inr ()),
      w_nets = (\<lambda>sid. net_up),
      w_as_completed = (\<lambda>fs. fs),
      w_now_str = ''2024-01-01 00:00:00'',
      w_open_log = Inr (),
      w_json_cities = Inl OSError,
      w_shuffle = rev,
      w_at_accepts = (\<lambda>t. True),
      w_next_daily_run = (\<lambda>now t. int now)\<rparr>"

text \<open>
  Recorders with two cities and with one city, one station each, no job scheduled yet;
  and a world in which every probe finds its stream alive and the encoder always fails.
\<close>

definition recorder_two_cities :: recorder where
  "recorder_two_cities =
     \<lparr>radio = \<lparr>stations_by_country = [],
                stations_by_city = [(''riyadh'', [(''a'', ''http://x/live'')]),
                                    (''jeddah'', [(''b'', ''http://y/live'')])],
                city_country_map = []\<rparr>,
      base_output_dir = ''recordings'',
      log_rows = None,
      monitor = StationMonitor_default,
      recording_times = [],
      jobs = []\<rparr>"

definition recorder_one_city :: recorder where
  "recorder_one_city =
     \<lparr>radio = \<lparr>stations_by_country = [],
                stations_by_city = [(''riyadh'', [(''a'', ''http://x/live'')])],
                city_country_map = []\<rparr>,
      base_output_dir = ''recordings'',
      log_rows = None,
      monitor = StationMonitor_default,
      recording_times = [],
      jobs = []\<rparr>"

definition world_ffmpeg_fails :: world where
  "world_ffmpeg_fails =
     world_playlist\<lparr>w_web := net_up, w_subprocess_run := (\<lambda>cmd. Inl CalledProcessError)\<rparr>"

text \<open>What a job runs, its interval and the moment of its next run.\<close>

definition job_view :: "job \<Rightarrow> job_func \<times> int \<times> int" where
  "job_view j = (do_func j, job_interval j, next_run j)"

section \<open>Properties of StationMonitor\<close>

lemma run_calls_append: "run_calls (cs @ ds) m = run_calls ds (run_calls cs m)"
  by (induction cs arbitrary: m) simp_all

lemma apply_call_exclusive:
  assumes "\<not> (is_working m sid \<and> is_failed m sid)"
  shows "\<not> (is_working (apply_call c m) sid \<and> is_failed (apply_call c m) sid)"
  using assms
  by (cases c) (auto simp: is_working_def is_failed_def mark_working_def mark_failed_def Let_def)

lemma run_calls_exclusive:
  assumes "\<not> (is_working m sid \<and> is_failed m sid)"
  shows "\<not> (is_working (run_calls cs m) sid \<and> is_failed (run_calls cs m) sid)"
  using assms
proof (induction cs arbitrary: m)
  case Nil
  then show ?case by simp
next
  case (Cons c cs)
  from Cons.prems have "\<not> (is_working (apply_call c m) sid \<and> is_failed (apply_call c m) sid)"
    by (rule apply_call_exclusive)
  then show ?case using Cons.IH by simp
qed

lemma init_exclusive:
  "\<not> (is_working (StationMonitor_init mr rd) sid \<and> is_failed (StationMonitor_init mr rd) sid)"
  by (simp add: is_working_def StationMonitor_init_def)

lemma reachable_exclusive:
  "\<not> (is_working (run_calls cs (StationMonitor_init mr rd)) sid
      \<and> is_failed (run_calls cs (StationMonitor_init mr rd)) sid)"
  by (rule run_calls_exclusive) (rule init_exclusive)

lemma mark_working_resets:
  "failure_count (mark_working now sid m) sid = 0"
  "is_working (mark_working now sid m) sid"
  "\<not> is_failed (mark_working now sid m) sid"
  by (simp_all add: failure_count_def is_working_def is_failed_def mark_working_def dict_get_def)

lemma apply_call_count_mono:
  assumes "is_failed m sid" and "is_failed (apply_call c m) sid"
  shows "failure_count m sid \<le> failure_count (apply_call c m) sid"
  using assms
  by (cases c)
     (auto simp: failure_count_def is_failed_def mark_working_def mark_failed_def dict_get_def
           Let_def split: if_splits option.splits)

lemma stays_failed_count_mono:
  assumes "stays_failed sid cs m"
  shows "failure_count m sid \<le> failure_count (run_calls cs m) sid"
  using assms
proof (induction cs arbitrary: m)
  case Nil
  then show ?case by simp
next
  case (Cons c cs)
  from Cons.prems have f0: "is_failed m sid" and rest: "stays_failed sid cs (apply_call c m)"
    by simp_all
  from rest have f1: "is_failed (apply_call c m) sid" by (cases cs) simp_all
  have "failure_count m sid \<le> failure_count (apply_call c m) sid"
    using f0 f1 by (rule apply_call_count_mono)
  also have "\<dots> \<le> failure_count (run_calls cs (apply_call c m)) sid"
    using rest by (rule Cons.IH)
  finally show ?case by simp
qed

lemma fail_times_count:
  "failure_count (fail_times n sid m) sid = failure_count m sid + int n"
  by (induction n arbitrary: m)
     (simp_all add: failure_count_def mark_failed_def dict_get_def Let_def)

lemma fail_times_max_retries: "max_retries (fail_times n sid m) = max_retries m"
  by (induction n arbitrary: m) (simp_all add: mark_failed_def Let_def)

lemma fail_times_retry_delay: "retry_delay (fail_times n sid m) = retry_delay m"
  by (induction n arbitrary: m) (simp_all add: mark_failed_def Let_def)

lemma run_calls_max_retries: "max_retries (run_calls cs m) = max_retries m"
proof (induction cs arbitrary: m)
  case Nil
  then show ?case by simp
next
  case (Cons c cs)
  have "max_retries (apply_call c m) = max_retries m"
    by (cases c) (simp_all add: mark_failed_def mark_working_def Let_def)
  then show ?case using Cons.IH by simp
qed

lemma run_calls_retry_delay: "retry_delay (run_calls cs m) = retry_delay m"
proof (induction cs arbitrary: m)
  case Nil
  then show ?case by simp
next
  case (Cons c cs)
  have "retry_delay (apply_call c m) = retry_delay m"
    by (cases c) (simp_all add: mark_failed_def mark_working_def Let_def)
  then show ?case using Cons.IH by simp
qed

lemma run_calls_failure_count:
  assumes "\<forall>now. MarkWorking now sid \<notin> set ds"
  shows "failure_count (run_calls ds m) sid = failure_count m sid + int (count_list ds (MarkFailed sid))"
  using assms
proof (induction ds arbitrary: m)
  case Nil
  then show ?case by simp
next
  case (Cons c ds)
  from Cons.prems have rest: "\<forall>now. MarkWorking now sid \<notin> set ds"
    and c: "\<forall>now. c \<noteq> MarkWorking now sid" by auto
  have step: "failure_count (apply_call c m) sid
      = failure_count m sid + (if c = MarkFailed sid then 1 else 0)"
    using c
    by (cases c) (auto simp: failure_count_def mark_failed_def mark_working_def dict_get_def Let_def)
  show ?case using Cons.IH [OF rest, of "apply_call c m"] step by simp
qed

lemma not_failed_count_zero: "\<not> is_failed m sid \<Longrightarrow> failure_count m sid = 0"
  by (simp add: is_failed_def failure_count_def dict_get_def)


text \<open>
  C4. For every sequence of \<^verbatim>\<open>mark_working\<close> and \<^verbatim>\<open>mark_failed\<close> calls on a
  StationMonitor and every station id: the id is never at once in the working set and
  a key of the failed map; whenever the id is in the working set its failure count is
  0, and \<^verbatim>\<open>mark_working\<close> puts it there with its entry of the failed map removed;
  and along any further calls during which the id stays a key of the failed map, its
  failure count never decreases.
\<close>

theorem monitor_status_invariant:
  "(let m = run_calls cs (StationMonitor_init mr rd) in
      \<not> (sid \<in> working_stations m \<and> failed_stations m sid \<noteq> None)
    \<and> (sid \<in> working_stations m \<longrightarrow> failure_count m sid = 0)
    \<and> sid \<in> working_stations (mark_working now sid m)
    \<and> failed_stations (mark_working now sid m) sid = None
    \<and> failure_count (mark_working now sid m) sid = 0
    \<and> (stays_failed sid ds m \<longrightarrow>
          failure_count m sid \<le> failure_count (run_calls ds m) sid))"
proof -
  define m where "m = run_calls cs (StationMonitor_init mr rd)"
  have excl: "\<not> (sid \<in> working_stations m \<and> failed_stations m sid \<noteq> None)"
    using reachable_exclusive [of cs mr rd sid]
    by (simp add: m_def is_working_def is_failed_def)
  have zero: "sid \<in> working_stations m \<longrightarrow> failure_count m sid = 0"
    using excl not_failed_count_zero [of m sid] by (auto simp: is_failed_def)
  have w: "sid \<in> working_stations (mark_working now sid m)"
    using mark_working_resets(2) [of now sid m] by (simp add: is_working_def)
  have f: "failed_stations (mark_working now sid m) sid = None"
    using mark_working_resets(3) [of now sid m] by (simp add: is_failed_def)
  have c: "failure_count (mark_working now sid m) sid = 0"
    by (rule mark_working_resets(1))
  have mono: "stays_failed sid ds m \<longrightarrow>
      failure_count m sid \<le> failure_count (run_calls ds m) sid"
    using stays_failed_count_mono [of sid ds m] by blast
  from excl zero w f c mono show ?thesis
    unfolding m_def [symmetric] Let_def by blast
qed

theorem monitor_status_invariant_witness:
  "stays_failed ''a'' [MarkFailed ''b'', MarkFailed ''a'']
     (run_calls [MarkWorking 7 ''a'', MarkFailed ''a''] (StationMonitor_init 3 300))
   \<and> failure_count (run_calls [MarkWorking 7 ''a'', MarkFailed ''a''] (StationMonitor_init 3 300)) ''a'' = 1
   \<and> failure_count
        (run_calls [MarkFailed ''b'', MarkFailed ''a'']
          (run_calls [MarkWorking 7 ''a'', MarkFailed ''a''] (StationMonitor_init 3 300))) ''a'' = 2
   \<and> ''b'' \<in> working_stations (run_calls [MarkFailed ''a'', MarkWorking 9 ''b''] (StationMonitor_init 3 300))
   \<and> failure_count (run_calls [MarkFailed ''a'', MarkWorking 9 ''b''] (StationMonitor_init 3 300)) ''b'' = 0"
  using monitor_status_invariant
          [where cs = "[MarkWorking 7 ''a'', MarkFailed ''a'']" and mr = 3 and rd = 300
             and sid = "''a''" and now = 0 and ds = "[MarkFailed ''b'', MarkFailed ''a'']"]
        monitor_status_invariant
          [where cs = "[MarkFailed ''a'', MarkWorking 9 ''b'']" and mr = 3 and rd = 300
             and sid = "''b''" and now = 0 and ds = "[]"]
  by (simp add: StationMonitor_init_def mark_failed_def mark_working_def is_failed_def
        failure_count_def dict_get_def Let_def)

text \<open>
  C7. For every station id and every \<open>n\<close>: in a monitor state reached by any calls in
  which the station is Working or unseen, after \<open>n\<close> consecutive \<^verbatim>\<open>mark_failed\<close>
  calls for it, \<^verbatim>\<open>should_retry\<close> is true exactly when \<open>n < max_retries\<close>; at exactly
  \<open>max_retries\<close> failures it is false, and with the default \<open>max_retries = 3\<close> it is
  true after 0, 1 and 2 failures and false after 3. The same holds when calls for
  other stations come between the \<open>n\<close> failures, as long as no \<^verbatim>\<open>mark_working\<close> for
  the station does.
\<close>

theorem should_retry_after_failures:
  "(let m = run_calls cs (StationMonitor_init mr rd) in
      (sid \<in> working_stations m \<or> (sid \<notin> working_stations m \<and> failed_stations m sid = None)) \<longrightarrow>
        (should_retry (fail_times n sid m) sid \<longleftrightarrow> int n < mr)
      \<and> (0 \<le> mr \<longrightarrow> \<not> should_retry (fail_times (nat mr) sid m) sid)
      \<and> ((\<forall>now. MarkWorking now sid \<notin> set ds) \<longrightarrow>
            (should_retry (run_calls ds m) sid \<longleftrightarrow> int (count_list ds (MarkFailed sid)) < mr)))
   \<and> (let d = run_calls cs StationMonitor_default in
      (sid \<in> working_stations d \<or> (sid \<notin> working_stations d \<and> failed_stations d sid = None)) \<longrightarrow>
        (should_retry (fail_times n sid d) sid \<longleftrightarrow> n < 3))"
proof -
  have zero: "failure_count m sid = 0"
    if m: "m = run_calls cs (StationMonitor_init mr rd)"
      and st: "sid \<in> working_stations m \<or> (sid \<notin> working_stations m \<and> failed_stations m sid = None)"
    for m :: station_monitor and mr rd :: int
  proof -
    have "\<not> is_failed m sid"
      using reachable_exclusive [of cs mr rd sid] st
      by (auto simp: m is_working_def is_failed_def)
    then show ?thesis by (rule not_failed_count_zero)
  qed
  have key: "should_retry (fail_times n sid m) sid \<longleftrightarrow> int n < mr"
    if m: "m = run_calls cs (StationMonitor_init mr rd)"
      and st: "sid \<in> working_stations m \<or> (sid \<notin> working_stations m \<and> failed_stations m sid = None)"
    for m :: station_monitor and mr rd :: int and n :: nat
  proof -
    have "failure_count (fail_times n sid m) sid = int n"
      using zero [OF m st] by (simp add: fail_times_count)
    moreover have "max_retries (fail_times n sid m) = mr"
      by (simp add: fail_times_max_retries m run_calls_max_retries StationMonitor_init_def)
    ultimately show ?thesis
      by (simp add: should_retry_def failure_count_def)
  qed
  have mixed: "should_retry (run_calls ds m) sid \<longleftrightarrow> int (count_list ds (MarkFailed sid)) < mr"
    if m: "m = run_calls cs (StationMonitor_init mr rd)"
      and st: "sid \<in> working_stations m \<or> (sid \<notin> working_stations m \<and> failed_stations m sid = None)"
      and nw: "\<forall>now. MarkWorking now sid \<notin> set ds"
    for m :: station_monitor
  proof -
    have "failure_count (run_calls ds m) sid = int (count_list ds (MarkFailed sid))"
      using zero [OF m st] run_calls_failure_count [OF nw, of m] by simp
    moreover have "max_retries (run_calls ds m) = mr"
      by (simp add: m run_calls_max_retries StationMonitor_init_def)
    ultimately show ?thesis
      by (simp add: should_retry_def failure_count_def)
  qed
  have a: "(sid \<in> working_stations m \<or> (sid \<notin> working_stations m \<and> failed_stations m sid = None)) \<longrightarrow>
        (should_retry (fail_times n sid m) sid \<longleftrightarrow> int n < mr)
      \<and> (0 \<le> mr \<longrightarrow> \<not> should_retry (fail_times (nat mr) sid m) sid)
      \<and> ((\<forall>now. MarkWorking now sid \<notin> set ds) \<longrightarrow>
            (should_retry (run_calls ds m) sid \<longleftrightarrow> int (count_list ds (MarkFailed sid)) < mr))"
    if m: "m = run_calls cs (StationMonitor_init mr rd)" for m
    using key [OF m, of n] key [OF m, of "nat mr"] mixed [OF m] by auto
  have b: "(sid \<in> working_stations d \<or> (sid \<notin> working_stations d \<and> failed_stations d sid = None)) \<longrightarrow>
        (should_retry (fail_times n sid d) sid \<longleftrightarrow> n < 3)"
    if d: "d = run_calls cs StationMonitor_default" for d
    using key [of d 3 300 n] d by (auto simp: StationMonitor_default_def)
  from a b show ?thesis unfolding Let_def by blast
qed

theorem should_retry_after_failures_witness:
  "''x'' \<in> working_stations (run_calls [MarkFailed ''x'', MarkWorking 1 ''x''] (StationMonitor_init 3 300))
   \<and> should_retry (fail_times 2 ''x'' (run_calls [MarkFailed ''x'', MarkWorking 1 ''x''] (StationMonitor_init 3 300))) ''x''
   \<and> \<not> should_retry (fail_times (nat 3) ''x'' (run_calls [MarkFailed ''x'', MarkWorking 1 ''x''] (StationMonitor_init 3 300))) ''x''
   \<and> should_retry
        (run_calls [MarkFailed ''x'', MarkFailed ''y'', MarkWorking 2 ''y'', MarkFailed ''x'']
          (run_calls [MarkFailed ''x'', MarkWorking 1 ''x''] (StationMonitor_init 3 300))) ''x''
   \<and> should_retry (fail_times 2 ''x'' (run_calls [MarkFailed ''x'', MarkWorking 1 ''x''] StationMonitor_default)) ''x''"
  using should_retry_after_failures
          [where sid = "''x''" and cs = "[MarkFailed ''x'', MarkWorking 1 ''x'']"
             and mr = 3 and rd = 300 and n = 2
             and ds = "[MarkFailed ''x'', MarkFailed ''y'', MarkWorking 2 ''y'', MarkFailed ''x'']"]
  by (simp add: StationMonitor_default_def StationMonitor_init_def mark_failed_def
        mark_working_def Let_def)

text \<open>
  C8. For every station id, \<^verbatim>\<open>get_retry_delay\<close> is the base delay times the station's
  current failure count plus one, the count being 0 for a station that is Working or
  unseen: after \<open>n\<close> consecutive failures it is \<open>baseDelay * (n + 1)\<close>, linear in \<open>n\<close>;
  after the 2nd consecutive failure it is \<open>3 * baseDelay\<close>, which is 900 with the
  default base delay of 300.
\<close>

theorem get_retry_delay_linear:
  "get_retry_delay m0 sid = retry_delay m0 * (failure_count m0 sid + 1)
   \<and> (let m = run_calls cs (StationMonitor_init mr rd) in
      (sid \<in> working_stations m \<or> (sid \<notin> working_stations m \<and> failed_stations m sid = None)) \<longrightarrow>
        failure_count m sid = 0
      \<and> get_retry_delay m sid = rd
      \<and> get_retry_delay (fail_times n sid m) sid = rd * (int n + 1)
      \<and> get_retry_delay (fail_times 2 sid m) sid = 3 * rd)
   \<and> (let d = run_calls cs StationMonitor_default in
      (sid \<in> working_stations d \<or> (sid \<notin> working_stations d \<and> failed_stations d sid = None)) \<longrightarrow>
        get_retry_delay (fail_times 2 sid d) sid = 900)"
proof -
  have key: "failure_count m sid = 0 \<and> get_retry_delay (fail_times n sid m) sid = rd * (int n + 1)"
    if m: "m = run_calls cs (StationMonitor_init mr rd)"
      and st: "sid \<in> working_stations m \<or> (sid \<notin> working_stations m \<and> failed_stations m sid = None)"
    for m :: station_monitor and mr rd :: int and n :: nat
  proof -
    have "\<not> is_failed m sid"
      using reachable_exclusive [of cs mr rd sid] st
      by (auto simp: m is_working_def is_failed_def)
    then have z: "failure_count m sid = 0" by (rule not_failed_count_zero)
    then have "failure_count (fail_times n sid m) sid = int n"
      by (simp add: fail_times_count)
    moreover have "retry_delay (fail_times n sid m) = rd"
      by (simp add: fail_times_retry_delay m run_calls_retry_delay StationMonitor_init_def)
    ultimately show ?thesis using z
      by (simp add: get_retry_delay_def failure_count_def)
  qed
  have a: "get_retry_delay m0 sid = retry_delay m0 * (failure_count m0 sid + 1)"
    by (simp add: get_retry_delay_def failure_count_def)
  have b: "(sid \<in> working_stations m \<or> (sid \<notin> working_stations m \<and> failed_stations m sid = None)) \<longrightarrow>
        failure_count m sid = 0
      \<and> get_retry_delay m sid = rd
      \<and> get_retry_delay (fail_times n sid m) sid = rd * (int n + 1)
      \<and> get_retry_delay (fail_times 2 sid m) sid = 3 * rd"
    if m: "m = run_calls cs (StationMonitor_init mr rd)" for m
    using key [OF m, of n] key [OF m, of 2] key [OF m, of 0] by auto
  have c: "(sid \<in> working_stations d \<or> (sid \<notin> working_stations d \<and> failed_stations d sid = None)) \<longrightarrow>
        get_retry_delay (fail_times 2 sid d) sid = 900"
    if d: "d = run_calls cs StationMonitor_default" for d
    using key [of d 3 300 2] d by (auto simp: StationMonitor_default_def)
  from a b c show ?thesis unfolding Let_def by blast
qed

theorem get_retry_delay_linear_witness:
  "''s'' \<notin> working_stations (run_calls [MarkWorking 4 ''t''] (StationMonitor_init 3 300))
   \<and> failed_stations (run_calls [MarkWorking 4 ''t''] (StationMonitor_init 3 300)) ''s'' = None
   \<and> get_retry_delay (fail_times 2 ''s'' (run_calls [MarkWorking 4 ''t''] (StationMonitor_init 3 300))) ''s'' = 900
   \<and> get_retry_delay (fail_times 1 ''s'' (run_calls [MarkWorking 4 ''t''] (StationMonitor_init 3 300))) ''s'' = 600"
  using get_retry_delay_linear
          [where sid = "''s''" and cs = "[MarkWorking 4 ''t'']" and mr = 3 and rd = 300
             and n = 1 and ?m0.0 = StationMonitor_default]
  by (simp add: StationMonitor_init_def mark_working_def Let_def)


section \<open>Properties of the catalog\<close>

lemma map_of_dict_update:
  "distinct (map fst other) \<Longrightarrow> map_of (dict_update d other) = map_of d ++ map_of other"
proof (induction other arbitrary: d)
  case Nil
  then show ?case by (simp add: dict_update_def)
next
  case (Cons p other)
  obtain k v where p: "p = (k, v)" by (cases p)
  from Cons.prems p have k: "k \<notin> fst ` set other" and d: "distinct (map fst other)"
    by auto
  have e: "dict_update d (p # other) = dict_update (AList.update k v d) other"
    by (simp add: dict_update_def p)
  have "map_of (dict_update d (p # other)) = map_of (AList.update k v d) ++ map_of other"
    unfolding e by (rule Cons.IH [OF d])
  then have "map_of (dict_update d (p # other)) = (map_of d)(k \<mapsto> v) ++ map_of other"
    by (simp only: update_conv')
  also have "\<dots> = map_of d ++ map_of (p # other)"
  proof (rule ext)
    fix x
    from k have "map_of other k = None" by (simp add: map_of_eq_None_iff)
    then show "((map_of d)(k \<mapsto> v) ++ map_of other) x = (map_of d ++ map_of (p # other)) x"
      by (simp add: p map_add_def split: option.splits)
  qed
  finally show ?case .
qed

lemma dict_update_keys_distinct:
  "distinct (map fst d) \<Longrightarrow> distinct (map fst (dict_update d other))"
proof (induction other arbitrary: d)
  case Nil
  then show ?case by (simp add: dict_update_def)
next
  case (Cons p other)
  obtain k v where p: "p = (k, v)" by (cases p)
  have "distinct (map fst (AList.update k v d))"
    using Cons.prems by (simp add: distinct_update)
  then have "distinct (map fst (dict_update (AList.update k v d) other))"
    by (rule Cons.IH)
  then show ?case by (simp add: dict_update_def p)
qed

text \<open>Merging a list of dictionaries: the last one that has the key decides.\<close>

lemma fold_dict_update_lookup:
  assumes "\<forall>st \<in> set sts. distinct (map fst st)"
  shows "map_of (fold (\<lambda>st acc. dict_update acc st) sts acc0) sid =
     (if filter (\<lambda>st. map_of st sid \<noteq> None) sts = [] then map_of acc0 sid
      else map_of (last (filter (\<lambda>st. map_of st sid \<noteq> None) sts)) sid)"
  using assms
proof (induction sts rule: rev_induct)
  case Nil
  then show ?case by simp
next
  case (snoc st sts)
  from snoc.prems have d: "distinct (map fst st)" and ds: "\<forall>st \<in> set sts. distinct (map fst st)"
    by simp_all
  have step: "map_of (fold (\<lambda>st acc. dict_update acc st) (sts @ [st]) acc0) sid =
      (map_of (fold (\<lambda>st acc. dict_update acc st) sts acc0) ++ map_of st) sid"
    by (simp add: map_of_dict_update [OF d])
  show ?case
  proof (cases "map_of st sid")
    case None
    then have f: "filter (\<lambda>st. map_of st sid \<noteq> None) (sts @ [st]) =
        filter (\<lambda>st. map_of st sid \<noteq> None) sts"
      by simp
    from None step have "map_of (fold (\<lambda>st acc. dict_update acc st) (sts @ [st]) acc0) sid =
        map_of (fold (\<lambda>st acc. dict_update acc st) sts acc0) sid"
      by (simp add: map_add_def)
    then show ?thesis
      unfolding f using snoc.IH [OF ds] by (rule trans)
  next
    case (Some u)
    then have f: "filter (\<lambda>st. map_of st sid \<noteq> None) (sts @ [st]) =
        filter (\<lambda>st. map_of st sid \<noteq> None) sts @ [st]"
      by simp
    from Some step have "map_of (fold (\<lambda>st acc. dict_update acc st) (sts @ [st]) acc0) sid =
        map_of st sid"
      by (simp add: map_add_def)
    then show ?thesis
      unfolding f by simp
  qed
qed

text \<open>
  C10. For every station id that some city mapping of \<^verbatim>\<open>stations_by_city\<close> lists,
  whether or not a country mapping lists it too, \<^verbatim>\<open>get_all_stations\<close> returns a city
  mapping's URL for it: the city mappings are merged after the country mappings, so
  the URL is the one of the last city mapping, in iteration order, that lists the id;
  when all city mappings that list the id give it the same URL, that URL is returned
  whatever the country mappings say.
\<close>

theorem get_all_stations_city_wins:
  assumes wf: "\<forall>st \<in> set (map snd (stations_by_city r)). dict_wf st"
    and listed: "\<exists>st \<in> set (map snd (stations_by_city r)). map_of st sid \<noteq> None"
  shows "map_of (get_all_stations r) sid =
           map_of (last (filter (\<lambda>st. map_of st sid \<noteq> None) (map snd (stations_by_city r)))) sid
       \<and> (\<exists>st \<in> set (map snd (stations_by_city r)).
             map_of st sid \<noteq> None \<and> map_of (get_all_stations r) sid = map_of st sid)
       \<and> ((\<forall>st \<in> set (map snd (stations_by_city r)). map_of st sid \<noteq> None \<longrightarrow> map_of st sid = Some url)
             \<longrightarrow> map_of (get_all_stations r) sid = Some url)"
proof -
  let ?cs = "map snd (stations_by_city r)"
  let ?fs = "filter (\<lambda>st. map_of st sid \<noteq> None) ?cs"
  from wf have d: "\<forall>st \<in> set ?cs. distinct (map fst st)" by (simp add: dict_wf_def)
  from listed have ne: "?fs \<noteq> []" by (auto simp: filter_empty_conv)
  have eq: "map_of (get_all_stations r) sid = map_of (last ?fs) sid"
    unfolding get_all_stations_def Let_def
    using fold_dict_update_lookup [OF d, of _ sid] ne
    by simp
  from ne have "last ?fs \<in> set ?fs" by (rule last_in_set)
  then have mem: "last ?fs \<in> set ?cs" and nn: "map_of (last ?fs) sid \<noteq> None"
    by simp_all
  have some: "\<exists>st \<in> set ?cs. map_of st sid \<noteq> None \<and> map_of (get_all_stations r) sid = map_of st sid"
    using mem nn eq by blast
  have agree: "(\<forall>st \<in> set ?cs. map_of st sid \<noteq> None \<longrightarrow> map_of st sid = Some url)
      \<longrightarrow> map_of (get_all_stations r) sid = Some url"
    using mem nn eq by metis
  from eq some agree show ?thesis by blast
qed

theorem get_all_stations_city_wins_witness:
  "map_of (get_all_stations
      \<lparr>stations_by_country = [(''SA'', [(''a-riyadh-SA'', ''http://country/a''), (''b-jeddah-SA'', ''http://country/b'')])],
       stations_by_city = [(''riyadh'', [(''a-riyadh-SA'', ''http://city/a'')])],
       city_country_map = []\<rparr>) ''a-riyadh-SA'' = Some ''http://city/a''"
proof -
  let ?r = "\<lparr>stations_by_country = [(''SA'', [(''a-riyadh-SA'', ''http://country/a''), (''b-jeddah-SA'', ''http://country/b'')])],
       stations_by_city = [(''riyadh'', [(''a-riyadh-SA'', ''http://city/a'')])],
       city_country_map = []\<rparr>"
  have wf: "\<forall>st \<in> set (map snd (stations_by_city ?r)). dict_wf st"
    by (simp add: dict_wf_def)
  have listed: "\<exists>st \<in> set (map snd (stations_by_city ?r)). map_of st ''a-riyadh-SA'' \<noteq> None"
    by simp
  show ?thesis
    using get_all_stations_city_wins [OF wf listed, of "''http://city/a''"] by simp
qed


section \<open>Properties of the verifier\<close>

lemma verify_stream_url_total: "\<exists>b. verify_stream_url n url timeout = Inr b"
  by (cases "verify_stream_url_try n url timeout") (auto simp: verify_stream_url_def)

lemma check_all_verify_stream_url_eq:
  "check_all_verify_stream_url n url timeout = verify_stream_url n url timeout"
  by (simp add: check_all_verify_stream_url_def verify_stream_url_def verify_stream_url_try_def)

text \<open>
  C5. \<^verbatim>\<open>verify_stream_url\<close> (both copies) returns a boolean for every network, URL and
  timeout and never raises. When the URL parses: with a scheme other than http and
  https it returns true; with a playlist or manifest suffix it returns true exactly
  when the header-only request returns status 200; otherwise it returns true exactly
  when the streaming GET returns status 200 and the first chunk read is non-empty,
  whatever chunks follow. It returns false whenever parsing, the request or the read
  of the first chunk raises.
\<close>

theorem verify_stream_url_total_policy:
  "(\<exists>b. verify_stream_url n url timeout = Inr b)
   \<and> check_all_verify_stream_url n url timeout = verify_stream_url n url timeout
   \<and> (\<forall>p. urlparse n url = Inr p \<and> scheme p \<noteq> ''http'' \<and> scheme p \<noteq> ''https'' \<longrightarrow>
          verify_stream_url n url timeout = Inr True)
   \<and> (\<forall>p. urlparse n url = Inr p \<and> (scheme p = ''http'' \<or> scheme p = ''https'')
          \<and> endswith_any url [''.m3u8'', ''.m3u'', ''.pls''] \<longrightarrow>
          verify_stream_url n url timeout =
            Inr (\<exists>r. requests_head n url timeout = Inr r \<and> status_code r = 200))
   \<and> (\<forall>p. urlparse n url = Inr p \<and> (scheme p = ''http'' \<or> scheme p = ''https'')
          \<and> \<not> endswith_any url [''.m3u8'', ''.m3u'', ''.pls''] \<longrightarrow>
          verify_stream_url n url timeout =
            Inr (\<exists>r chunk rest. requests_get n url timeout = Inr r \<and> status_code r = 200
                   \<and> iter_content r = Inr chunk # rest \<and> chunk \<noteq> []))
   \<and> (\<forall>e. verify_stream_url_try n url timeout = Inl e \<longrightarrow>
          verify_stream_url n url timeout = Inr False)"
proof -
  have total: "\<exists>b. verify_stream_url n url timeout = Inr b"
    by (rule verify_stream_url_total)
  have same: "check_all_verify_stream_url n url timeout = verify_stream_url n url timeout"
    by (rule check_all_verify_stream_url_eq)
  have other: "\<forall>p. urlparse n url = Inr p \<and> scheme p \<noteq> ''http'' \<and> scheme p \<noteq> ''https'' \<longrightarrow>
      verify_stream_url n url timeout = Inr True"
    by (simp add: verify_stream_url_def verify_stream_url_try_def)
  have playlist: "\<forall>p. urlparse n url = Inr p \<and> (scheme p = ''http'' \<or> scheme p = ''https'')
      \<and> endswith_any url [''.m3u8'', ''.m3u'', ''.pls''] \<longrightarrow>
      verify_stream_url n url timeout =
        Inr (\<exists>r. requests_head n url timeout = Inr r \<and> status_code r = 200)"
    by (auto simp: verify_stream_url_def verify_stream_url_try_def split: sum.splits)
  have stream: "\<forall>p. urlparse n url = Inr p \<and> (scheme p = ''http'' \<or> scheme p = ''https'')
      \<and> \<not> endswith_any url [''.m3u8'', ''.m3u'', ''.pls''] \<longrightarrow>
      verify_stream_url n url timeout =
        Inr (\<exists>r chunk rest. requests_get n url timeout = Inr r \<and> status_code r = 200
               \<and> iter_content r = Inr chunk # rest \<and> chunk \<noteq> [])"
    by (auto simp: verify_stream_url_def verify_stream_url_try_def
          split: sum.splits list.splits)
  have raised: "\<forall>e. verify_stream_url_try n url timeout = Inl e \<longrightarrow>
      verify_stream_url n url timeout = Inr False"
    by (simp add: verify_stream_url_def)
  from total same other playlist stream raised show ?thesis by blast
qed


theorem verify_stream_url_total_policy_witness:
  "verify_stream_url net_up ''http://x/live'' 5 = Inr True
   \<and> verify_stream_url net_up ''http://x/a.pls'' 5 = Inr False
   \<and> verify_stream_url net_down ''http://x/live'' 5 = Inr False"
  using verify_stream_url_total_policy [where n = net_up and url = "''http://x/live''" and timeout = 5]
        verify_stream_url_total_policy [where n = net_up and url = "''http://x/a.pls''" and timeout = 5]
        verify_stream_url_total_policy [where n = net_down and url = "''http://x/live''" and timeout = 5]
  by (simp add: net_up_def net_down_def endswith_any_def endswith_def verify_stream_url_try_def)

lemma collect_working_ok:
  assumes "\<forall>f \<in> set fs. (\<exists>b. snd f = Inr b) \<and> map_of sd (fst f) \<noteq> None"
  shows "\<exists>w. collect_working sd fs working = Inr w
      \<and> map_of w = (\<lambda>sid. if (sid, Inr True) \<in> set fs then map_of sd sid else map_of working sid)
      \<and> (distinct (map fst working) \<longrightarrow> distinct (map fst w))"
  using assms
proof (induction fs arbitrary: working)
  case Nil
  then show ?case by simp
next
  case (Cons f fs)
  obtain sid res where f: "f = (sid, res)" by (cases f)
  from Cons.prems f obtain b url where res: "res = Inr b" and url: "map_of sd sid = Some url"
    by auto
  from Cons.prems have rest: "\<forall>f \<in> set fs. (\<exists>b. snd f = Inr b) \<and> map_of sd (fst f) \<noteq> None"
    by simp
  show ?case
  proof (cases b)
    case True
    from Cons.IH [OF rest, of "AList.update sid url working"]
    obtain w where w: "collect_working sd fs (AList.update sid url working) = Inr w"
      and m: "map_of w = (\<lambda>x. if (x, Inr True) \<in> set fs then map_of sd x
                               else map_of (AList.update sid url working) x)"
      and d: "distinct (map fst (AList.update sid url working)) \<longrightarrow> distinct (map fst w)"
      by blast
    have "collect_working sd (f # fs) working = Inr w"
      using w by (simp add: f res True url)
    moreover have "map_of w = (\<lambda>x. if (x, Inr True) \<in> set (f # fs) then map_of sd x
                                     else map_of working x)"
      unfolding m by (rule ext) (auto simp: f res True url update_conv')
    moreover have "distinct (map fst working) \<longrightarrow> distinct (map fst w)"
      using d by (simp add: distinct_update)
    ultimately show ?thesis by blast
  next
    case False
    from Cons.IH [OF rest, of working]
    obtain w where w: "collect_working sd fs working = Inr w"
      and m: "map_of w = (\<lambda>x. if (x, Inr True) \<in> set fs then map_of sd x else map_of working x)"
      and d: "distinct (map fst working) \<longrightarrow> distinct (map fst w)"
      by blast
    have "collect_working sd (f # fs) working = Inr w"
      using w by (simp add: f res False)
    moreover have "map_of w = (\<lambda>x. if (x, Inr True) \<in> set (f # fs) then map_of sd x
                                     else map_of working x)"
      unfolding m by (rule ext) (auto simp: f res False)
    ultimately show ?thesis using d by blast
  qed
qed

lemma submit_all_futures:
  "f \<in> set (submit_all nets sd) \<longleftrightarrow>
     (\<exists>sid url. (sid, url) \<in> set sd \<and> f = (sid, verify_stream_url (nets sid) url 5))"
  by (auto simp: submit_all_def)

text \<open>
  C6, as the code has it. For every input dictionary of station id to URL, every
  worker count of at least 1 and every order of completion of the probes,
  \<^verbatim>\<open>verify_stations_health\<close> returns a dictionary whose keys are keys of the input,
  each with exactly the URL the input gives it: the entries whose probe returned true.
\<close>

theorem verify_stations_health_subset:
  assumes workers: "0 < max_workers"
    and wf: "dict_wf stations_dict"
    and order: "mset (as_completed (submit_all nets stations_dict)) = mset (submit_all nets stations_dict)"
  shows "\<exists>working. verify_stations_health nets as_completed stations_dict max_workers = Inr working
      \<and> dict_wf working
      \<and> set (map fst working) \<subseteq> set (map fst stations_dict)
      \<and> (\<forall>sid url. map_of working sid = Some url \<longrightarrow> map_of stations_dict sid = Some url)
      \<and> (\<forall>sid url. map_of working sid = Some url \<longleftrightarrow>
            map_of stations_dict sid = Some url \<and> verify_stream_url (nets sid) url 5 = Inr True)"
proof -
  let ?fs = "as_completed (submit_all nets stations_dict)"
  from wf have dist: "distinct (map fst stations_dict)" by (simp add: dict_wf_def)
  from order have sets: "set ?fs = set (submit_all nets stations_dict)"
    by (rule mset_eq_setD)
  have ok: "\<forall>f \<in> set ?fs. (\<exists>b. snd f = Inr b) \<and> map_of stations_dict (fst f) \<noteq> None"
  proof
    fix f assume "f \<in> set ?fs"
    then obtain sid url where in_sd: "(sid, url) \<in> set stations_dict"
      and f: "f = (sid, verify_stream_url (nets sid) url 5)"
      unfolding sets submit_all_futures by blast
    from in_sd dist have "map_of stations_dict sid = Some url" by simp
    then show "(\<exists>b. snd f = Inr b) \<and> map_of stations_dict (fst f) \<noteq> None"
      using verify_stream_url_total [of "nets sid" url 5] by (simp add: f)
  qed
  from collect_working_ok [OF ok, of "[]"]
  obtain w where w: "collect_working stations_dict ?fs [] = Inr w"
    and m0: "map_of w = (\<lambda>sid. if (sid, Inr True) \<in> set ?fs then map_of stations_dict sid
                                 else map_of [] sid)"
    and d0: "distinct (map fst ([] :: (string \<times> string) list)) \<longrightarrow> distinct (map fst w)"
    by blast
  have m: "map_of w = (\<lambda>sid. if (sid, Inr True) \<in> set ?fs then map_of stations_dict sid
                                 else None)"
    unfolding m0 by (rule ext) simp
  from d0 have d: "distinct (map fst w)" by simp
  have run: "verify_stations_health nets as_completed stations_dict max_workers = Inr w"
    using workers w by (simp add: verify_stations_health_def)
  have alive: "map_of w sid = Some url \<longleftrightarrow>
      map_of stations_dict sid = Some url \<and> verify_stream_url (nets sid) url 5 = Inr True"
    for sid url
  proof
    assume a: "map_of w sid = Some url"
    then have t: "(sid, Inr True) \<in> set ?fs" and u: "map_of stations_dict sid = Some url"
      unfolding m by (simp_all split: if_splits)
    from t obtain url' where in_sd: "(sid, url') \<in> set stations_dict"
      and v: "verify_stream_url (nets sid) url' 5 = Inr True"
      unfolding sets submit_all_futures by auto
    from in_sd dist have "map_of stations_dict sid = Some url'" by simp
    with u have "url' = url" by simp
    with u v show "map_of stations_dict sid = Some url \<and> verify_stream_url (nets sid) url 5 = Inr True"
      by simp
  next
    assume a: "map_of stations_dict sid = Some url \<and> verify_stream_url (nets sid) url 5 = Inr True"
    then have "(sid, url) \<in> set stations_dict" by (simp add: map_of_SomeD)
    with a have "(sid, Inr True) \<in> set ?fs"
      unfolding sets submit_all_futures by force
    with a show "map_of w sid = Some url" unfolding m by simp
  qed
  have keys: "set (map fst w) \<subseteq> set (map fst stations_dict)"
  proof
    fix k assume "k \<in> set (map fst w)"
    then have "k \<in> dom (map_of w)" by (simp add: dom_map_of_conv_image_fst)
    then obtain url where "map_of w k = Some url" by blast
    then have "map_of stations_dict k = Some url" using alive by blast
    then have "k \<in> dom (map_of stations_dict)" by blast
    then show "k \<in> set (map fst stations_dict)" by (simp add: dom_map_of_conv_image_fst)
  qed
  from run d keys alive show ?thesis
    unfolding dict_wf_def by blast
qed

theorem verify_stations_health_subset_witness:
  "verify_stations_health nets_ab rev [(''a'', ''http://x/live''), (''b'', ''http://y/live'')] 5
     = Inr [(''a'', ''http://x/live'')]"
proof -
  let ?sd = "[(''a'', ''http://x/live''), (''b'', ''http://y/live'')]"
  have workers: "(0::int) < 5" by simp
  have wf: "dict_wf ?sd" by (simp add: dict_wf_def)
  have order: "mset (rev (submit_all nets_ab ?sd)) = mset (submit_all nets_ab ?sd)" by simp
  from verify_stations_health_subset
         [where as_completed = rev and nets = nets_ab, OF workers wf order]
  obtain working where "verify_stations_health nets_ab rev ?sd 5 = Inr working" by blast
  then show ?thesis
    by (simp add: verify_stations_health_def submit_all_def nets_ab_def net_up_def net_down_def
          verify_stream_url_def verify_stream_url_try_def endswith_any_def endswith_def)
qed

text \<open>With no worker the executor raises before any probe runs.\<close>

theorem verify_stations_health_zero_workers:
  "verify_stations_health nets_ab rev [(''a'', ''http://x/live'')] 0 = Inl ValueError"
  by (simp add: verify_stations_health_def)


section \<open>Properties of the page extraction\<close>





section \<open>Properties of record\_stream\<close>

lemma parse_pls_no_match:
  "\<forall>line \<in> set ls. \<not> pls_line_matches line \<Longrightarrow> parse_pls ls = None"
  by (induction ls) (auto simp: pls_line_matches_def Let_def)

lemma parse_m3u_no_match:
  "\<forall>line \<in> set ls. \<not> m3u_line_matches line \<Longrightarrow> parse_m3u ls = None"
  by (induction ls) (auto simp: m3u_line_matches_def Let_def)

lemma playlist_stage_total: "\<exists>u. record_stream_playlist_stage n url parsed = Inr u"
  by (cases "record_stream_playlist_try n url parsed")
     (auto simp: record_stream_playlist_stage_def)

lemma endswith_appendD: "endswith s (a @ b) \<Longrightarrow> endswith s b"
proof -
  assume "endswith s (a @ b)"
  then have l: "length a + length b \<le> length s"
    and d: "drop (length s - (length a + length b)) s = a @ b"
    by (simp_all add: endswith_def)
  have "drop (length s - length b) s = drop (length a) (drop (length s - (length a + length b)) s)"
    using l by simp
  also have "\<dots> = b" by (simp add: d)
  finally show ?thesis using l by (simp add: endswith_def)
qed

lemma endswith_same_length:
  "endswith s p \<Longrightarrow> endswith s q \<Longrightarrow> length p = length q \<Longrightarrow> p = q"
  by (simp add: endswith_def)

lemma playlist_not_html:
  assumes "endswith p ''.pls'' \<or> endswith p ''.m3u''"
  shows "\<not> (endswith p ''.htm'' \<or> endswith p ''.html'')"
proof
  assume h: "endswith p ''.htm'' \<or> endswith p ''.html''"
  have "endswith p ''.html'' \<Longrightarrow> endswith p ''html''"
    using endswith_appendD [of p "''.''" "''html''"] by simp
  with h have "endswith p ''.htm'' \<or> endswith p ''html''" by blast
  with assms show False
    by (auto dest: endswith_same_length)
qed

text \<open>
  C9, as the code has it. For every URL whose path ends in \<^verbatim>\<open>.pls\<close> or \<^verbatim>\<open>.m3u\<close>: if the
  fetch of the playlist raises, or its status is an error, or no line of the fetched
  body passes the test of the code (for \<^verbatim>\<open>.pls\<close>, a line that, stripped and in lower
  case, starts with \<^verbatim>\<open>file1=\<close> and whose value, stripped and in lower case, starts
  with the four characters \<^verbatim>\<open>http\<close>; for \<^verbatim>\<open>.m3u\<close>, a line that, stripped, starts with
  \<^verbatim>\<open>http\<close> in lower case), then the playlist stage of \<^verbatim>\<open>record_stream\<close> raises nothing
  and leaves the URL as it was, and \<^verbatim>\<open>record_stream\<close> hands that URL to the encoder
  after \<^verbatim>\<open>-i\<close>. The stage raises nothing on any input. The test is the bare prefix
  \<^verbatim>\<open>http\<close>, not an HTTP scheme.
\<close>

theorem playlist_stage_leaves_url:
  assumes suffix: "endswith (path parsed) ''.pls'' \<or> endswith (path parsed) ''.m3u''"
    and nomatch:
      "(\<exists>e. requests_get n url 10 = Inl e)
       \<or> (\<exists>resp. requests_get n url 10 = Inr resp
            \<and> ((\<exists>e. raise_for_status resp = Inl e)
               \<or> (endswith (path parsed) ''.pls''
                    \<and> (\<forall>line \<in> set (splitlines (resp_text resp)). \<not> pls_line_matches line))
               \<or> (\<not> endswith (path parsed) ''.pls''
                    \<and> (\<forall>line \<in> set (splitlines (resp_text resp)). \<not> m3u_line_matches line))))"
  shows "record_stream_playlist_stage n url parsed = Inr url
       \<and> (\<forall>n' url' parsed'. \<exists>u. record_stream_playlist_stage n' url' parsed' = Inr u)
       \<and> (w_web w = n \<and> w_makedirs w folder = Inr () \<and> urlparse n url = Inr parsed \<longrightarrow>
            record_stream w url seconds folder =
              (case w_subprocess_run w (ffmpeg_cmd url seconds (out_file_name w folder)) of
                 Inl e \<Rightarrow> Inl e
               | Inr _ \<Rightarrow> Inr (out_file_name w folder)))"
proof -
  have stage: "record_stream_playlist_stage n url parsed = Inr url"
  proof (cases "requests_get n url 10")
    case (Inl e)
    then show ?thesis using suffix
      by (simp add: record_stream_playlist_stage_def record_stream_playlist_try_def)
  next
    case (Inr resp)
    show ?thesis
    proof (cases "raise_for_status resp")
      case (Inl e)
      then show ?thesis using suffix Inr
        by (simp add: record_stream_playlist_stage_def record_stream_playlist_try_def)
    next
      case ok: (Inr u)
      show ?thesis
      proof (cases "endswith (path parsed) ''.pls''")
        case True
        with nomatch Inr ok
        have "\<forall>line \<in> set (splitlines (resp_text resp)). \<not> pls_line_matches line"
          by auto
        then have "parse_pls (splitlines (resp_text resp)) = None"
          by (rule parse_pls_no_match)
        then show ?thesis using True Inr ok
          by (simp add: record_stream_playlist_stage_def record_stream_playlist_try_def)
      next
        case False
        with nomatch Inr ok
        have "\<forall>line \<in> set (splitlines (resp_text resp)). \<not> m3u_line_matches line"
          by auto
        then have "parse_m3u (splitlines (resp_text resp)) = None"
          by (rule parse_m3u_no_match)
        then show ?thesis using False suffix Inr ok
          by (simp add: record_stream_playlist_stage_def record_stream_playlist_try_def)
      qed
    qed
  qed
  have total: "\<forall>n' url' parsed'. \<exists>u. record_stream_playlist_stage n' url' parsed' = Inr u"
    using playlist_stage_total by blast
  have whole: "w_web w = n \<and> w_makedirs w folder = Inr () \<and> urlparse n url = Inr parsed \<longrightarrow>
      record_stream w url seconds folder =
        (case w_subprocess_run w (ffmpeg_cmd url seconds (out_file_name w folder)) of
           Inl e \<Rightarrow> Inl e
         | Inr _ \<Rightarrow> Inr (out_file_name w folder))"
    using playlist_not_html [OF suffix] stage
    by (auto simp: record_stream_def record_stream_html_stage_def Let_def)
  from stage total whole show ?thesis by blast
qed

theorem playlist_stage_leaves_url_witness:
  "record_stream_playlist_stage net_playlist ''http://x/a.pls'' \<lparr>scheme = ''http'', path = ''/a.pls''\<rparr>
     = Inr ''http://x/a.pls''
   \<and> record_stream world_playlist ''http://x/a.pls'' 30 ''recordings''
     = Inr ''recordings/radio_20240101_000000.mp3''"
proof -
  let ?parsed = "\<lparr>scheme = ''http'', path = ''/a.pls''\<rparr>"
  let ?resp = "\<lparr>status_code = 200, resp_text = pls_body, iter_content = []\<rparr>"
  have suffix: "endswith (path ?parsed) ''.pls'' \<or> endswith (path ?parsed) ''.m3u''"
    by (simp add: endswith_def)
  have lines: "\<forall>line \<in> set (splitlines (resp_text ?resp)). \<not> pls_line_matches line"
    by code_simp
  have nomatch:
      "(\<exists>e. requests_get net_playlist ''http://x/a.pls'' 10 = Inl e)
       \<or> (\<exists>resp. requests_get net_playlist ''http://x/a.pls'' 10 = Inr resp
            \<and> ((\<exists>e. raise_for_status resp = Inl e)
               \<or> (endswith (path ?parsed) ''.pls''
                    \<and> (\<forall>line \<in> set (splitlines (resp_text resp)). \<not> pls_line_matches line))
               \<or> (\<not> endswith (path ?parsed) ''.pls''
                    \<and> (\<forall>line \<in> set (splitlines (resp_text resp)). \<not> m3u_line_matches line))))"
    using lines suffix by (simp add: net_playlist_def endswith_def)
  have out: "out_file_name world_playlist ''recordings'' = ''recordings/radio_20240101_000000.mp3''"
    by code_simp
  have w1: "w_web world_playlist = net_playlist"
    and w2: "w_makedirs world_playlist ''recordings'' = Inr ()"
    and w3: "\<And>cmd. w_subprocess_run world_playlist cmd = Inr ()"
    by (simp_all add: world_playlist_def)
  have w4: "urlparse net_playlist ''http://x/a.pls'' = Inr ?parsed"
    by (simp add: net_playlist_def)
  show ?thesis
    using playlist_stage_leaves_url
            [OF suffix nomatch, where w = world_playlist and folder = "''recordings''"
               and seconds = 30]
    by (simp add: out w1 w2 w3 w4)
qed


text \<open>
  A \<^verbatim>\<open>.m3u\<close> body with the lines \<^verbatim>\<open>#EXTM3U\<close> and \<^verbatim>\<open>httpfoo\<close>: neither starts with an
  HTTP scheme, yet the second passes the prefix test and replaces the URL.
\<close>

theorem playlist_stage_bare_prefix:
  "splitlines m3u_body = [''#EXTM3U'', ''httpfoo'']
   \<and> \<not> spec_m3u_line_shape ''#EXTM3U''
   \<and> \<not> spec_m3u_line_shape ''httpfoo''
   \<and> endswith (path \<lparr>scheme = ''http'', path = ''/a.m3u''\<rparr>) ''.m3u''
   \<and> record_stream_playlist_stage net_m3u ''http://x/a.m3u'' \<lparr>scheme = ''http'', path = ''/a.m3u''\<rparr>
       = Inr ''httpfoo''"
  by code_simp

text \<open>The normal form of some paths.\<close>

lemma pure_posix_path_examples:
  "pure_posix_path ''./rec/radio_1.mp3'' = ''rec/radio_1.mp3''"
  "pure_posix_path ''a//b/radio_1.mp3'' = ''a/b/radio_1.mp3''"
  "pure_posix_path ''recordings/riyadh/radio_1.mp3'' = ''recordings/riyadh/radio_1.mp3''"
  "pure_posix_path ''/radio_1.mp3'' = ''/radio_1.mp3''"
  "pure_posix_path ''//srv/x'' = ''//srv/x''"
  "pure_posix_path ''///srv/./x/'' = ''/srv/x''"
  "pure_posix_path [] = ''.''"
  by code_simp+

section \<open>Properties of the scheduler\<close>

subsection \<open>Slot times\<close>

lemma digit_val_digit_char: "d < 10 \<Longrightarrow> digit_val (digit_char d) = d"
  by (simp add: digit_val_def digit_char_def)

lemma parse_nat_snoc: "parse_nat (s @ [c]) = 10 * parse_nat s + digit_val c"
  by (simp add: parse_nat_def)

lemma digits_small: "n < 10 \<Longrightarrow> digits n = [digit_char n]"
  by (subst digits.simps) simp

lemma digits_big: "\<not> n < 10 \<Longrightarrow> digits n = digits (n div 10) @ [digit_char (n mod 10)]"
  by (subst digits.simps) simp

lemma parse_nat_digits: "parse_nat (digits n) = n"
proof (induction n rule: digits.induct)
  case (1 n)
  show ?case
  proof (cases "n < 10")
    case True
    then show ?thesis
      by (simp add: digits_small parse_nat_def digit_val_digit_char)
  next
    case False
    then have "parse_nat (digits n) = 10 * parse_nat (digits (n div 10)) + digit_val (digit_char (n mod 10))"
      by (simp add: digits_big parse_nat_snoc)
    also have "\<dots> = 10 * (n div 10) + n mod 10"
      using "1.IH" [OF False] by (simp add: digit_val_digit_char)
    finally show ?thesis by simp
  qed
qed

lemma digit_char_not_minus: "d < 10 \<Longrightarrow> CHR ''-'' \<noteq> digit_char d"
proof
  assume d: "d < 10" and "CHR ''-'' = digit_char d"
  then have "(of_char (CHR ''-'') :: nat) = of_char (digit_char d)" by simp
  with d show False by (simp add: digit_char_def)
qed

lemma digits_no_minus: "CHR ''-'' \<notin> set (digits n)"
proof (induction n rule: digits.induct)
  case (1 n)
  show ?case
  proof (cases "n < 10")
    case True
    then show ?thesis by (simp add: digits_small digit_char_not_minus)
  next
    case False
    then show ?thesis using "1.IH" [OF False]
      by (simp add: digits_big digit_char_not_minus)
  qed
qed

lemma digits_nonempty: "digits n \<noteq> []"
  by (cases "n < 10") (simp_all add: digits_small digits_big)

lemma parse_int_str_int: "parse_int (str_int i) = i"
proof (cases "i < 0")
  case True
  then show ?thesis
    by (simp add: str_int_def parse_int_def parse_nat_digits)
next
  case False
  obtain c cs where d: "digits (nat i) = c # cs"
    using digits_nonempty [of "nat i"] by (cases "digits (nat i)") auto
  have "c \<noteq> CHR ''-''" using digits_no_minus [of "nat i"] d by auto
  then have "parse_int (digits (nat i)) = int (parse_nat (digits (nat i)))"
    by (simp add: parse_int_def d)
  with False show ?thesis by (simp add: str_int_def parse_nat_digits)
qed

lemma parse_nat_zero_cons: "parse_nat (CHR ''0'' # s) = parse_nat s"
  by (simp add: parse_nat_def digit_val_def)

lemma parse_int_format_02d: "parse_int (format_02d i) = i"
proof (cases "0 \<le> i \<and> i < 10")
  case True
  then have "parse_int (format_02d i) = int (parse_nat (CHR ''0'' # digits (nat i)))"
    by (simp add: format_02d_def str_int_def parse_int_def)
  then show ?thesis using True by (simp add: parse_nat_zero_cons parse_nat_digits)
next
  case False
  then have "format_02d i = str_int i" by (auto simp: format_02d_def)
  then show ?thesis by (simp add: parse_int_str_int)
qed

lemma format_02d_inj: "format_02d i = format_02d j \<Longrightarrow> i = j"
  by (metis parse_int_format_02d)

lemma format_02d_length2:
  assumes "0 \<le> i" and "i < 100"
  shows "length (format_02d i) = 2"
proof (cases "i < 10")
  case True
  with assms have "nat i < 10" by simp
  then have "digits (nat i) = [digit_char (nat i)]" by (rule digits_small)
  with True assms show ?thesis by (simp add: format_02d_def str_int_def)
next
  case False
  with assms have n: "\<not> nat i < 10" "nat i div 10 < 10" by simp_all
  have "digits (nat i) = [digit_char (nat i div 10), digit_char (nat i mod 10)]"
    by (simp add: digits_big [OF n(1)] digits_small [OF n(2)])
  with False assms show ?thesis by (simp add: format_02d_def str_int_def)
qed

lemma time_str_of_inj:
  assumes "time_str_of a = time_str_of b"
  shows "a = b"
proof -
  have la: "length (format_02d (a mod 60)) = 2" by (rule format_02d_length2) simp_all
  have lb: "length (format_02d (b mod 60)) = 2" by (rule format_02d_length2) simp_all
  from assms have "(format_02d (a div 60) @ '':'') @ format_02d (a mod 60)
      = (format_02d (b div 60) @ '':'') @ format_02d (b mod 60)"
    by (simp add: time_str_of_def Let_def)
  then have "format_02d (a div 60) @ '':'' = format_02d (b div 60) @ '':''
      \<and> format_02d (a mod 60) = format_02d (b mod 60)"
    using la lb by (intro iffD1 [OF append_eq_append_conv]) simp_all
  then have "a div 60 = b div 60" and "a mod 60 = b mod 60"
    by (auto dest: format_02d_inj)
  then show ?thesis by (metis div_mult_mod_eq)
qed

lemma slot_times_distinct:
  assumes "interval_minutes \<noteq> 0"
  shows "distinct (slot_times start_hour interval_minutes slots)"
proof -
  have "inj_on (\<lambda>i. time_str_of (start_hour * 60 + int i * interval_minutes)) (set [0..<nat slots])"
  proof (rule inj_onI)
    fix i j
    assume "time_str_of (start_hour * 60 + int i * interval_minutes)
        = time_str_of (start_hour * 60 + int j * interval_minutes)"
    then have "start_hour * 60 + int i * interval_minutes = start_hour * 60 + int j * interval_minutes"
      by (rule time_str_of_inj)
    with assms show "i = j" by simp
  qed
  then show ?thesis by (simp add: slot_times_def distinct_map)
qed

lemma slot_times_length: "length (slot_times start_hour interval_minutes slots) = nat slots"
  by (simp add: slot_times_def)

lemma slot_times_zero_interval:
  "slot_times start_hour 0 slots = replicate (nat slots) (time_str_of (start_hour * 60))"
  by (simp add: slot_times_def map_replicate_const)

lemma slot_times_in_day:
  assumes s: "0 \<le> start_hour" and e: "end_hour \<le> 24" and n: "0 < n"
    and room: "int n \<le> (end_hour - start_hour) * 60"
  shows "\<forall>t \<in> set (slot_times start_hour ((end_hour - start_hour) * 60 div int n) (int n)).
           \<exists>h m. 0 \<le> h \<and> h < 24 \<and> 0 \<le> m \<and> m < 60 \<and> t = format_02d h @ '':'' @ format_02d m"
proof
  fix t
  let ?T = "(end_hour - start_hour) * 60"
  let ?q = "?T div int n"
  assume "t \<in> set (slot_times start_hour ?q (int n))"
  then obtain i where i: "i < n" and t: "t = time_str_of (start_hour * 60 + int i * ?q)"
    by (auto simp: slot_times_def)
  let ?mins = "start_hour * 60 + int i * ?q"
  from n have npos: "0 < int n" by simp
  have "int n div int n \<le> ?q" using room npos by (rule zdiv_mono1)
  with npos have q1: "1 \<le> ?q" by simp
  have "int n * ?q + ?T mod int n = ?T" by (rule mult_div_mod_eq)
  moreover have "0 \<le> ?T mod int n" using npos by (rule pos_mod_sign)
  ultimately have qn: "int n * ?q \<le> ?T" by linarith
  have "int i * ?q \<le> (int n - 1) * ?q"
    using i q1 by (intro mult_right_mono) simp_all
  also have "\<dots> = int n * ?q - ?q" by (simp add: algebra_simps)
  also have "\<dots> < ?T" using qn q1 by simp
  finally have up: "?mins < end_hour * 60" by simp
  have lo: "0 \<le> ?mins" using s q1 by simp
  from up e have "?mins < 24 * 60" by simp
  then have h: "?mins div 60 < 24" by simp
  from lo have h0: "0 \<le> ?mins div 60" by simp
  show "\<exists>h m. 0 \<le> h \<and> h < 24 \<and> 0 \<le> m \<and> m < 60 \<and> t = format_02d h @ '':'' @ format_02d m"
    using h h0 t
    by (intro exI [of _ "?mins div 60"] exI [of _ "?mins mod 60"])
       (simp add: time_str_of_def Let_def)
qed

lemma assign_slots_ok:
  assumes "\<forall>p \<in> set ps. w_at_accepts w (snd p)"
  shows "\<exists>st'. assign_slots w now ps st = Inr st'
      \<and> jobs st' = jobs st @ map (daily_job w now) ps
      \<and> recording_times st' = dict_update (recording_times st) ps
      \<and> monitor st' = monitor st \<and> radio st' = radio st"
  using assms
proof (induction ps arbitrary: st)
  case Nil
  then show ?case by (simp add: dict_update_def)
next
  case (Cons p ps)
  obtain city time_str where p: "p = (city, time_str)" by (cases p)
  from Cons.prems p have acc: "w_at_accepts w time_str"
    and rest: "\<forall>p \<in> set ps. w_at_accepts w (snd p)" by simp_all
  let ?st1 = "schedule_do w now 1 Days (Some time_str) (RecordCity city) st"
  let ?st2 = "?st1\<lparr>recording_times := AList.update city time_str (recording_times ?st1)\<rparr>"
  from Cons.IH [OF rest, of ?st2]
  obtain st' where r: "assign_slots w now ps ?st2 = Inr st'"
    and j: "jobs st' = jobs ?st2 @ map (daily_job w now) ps"
    and t: "recording_times st' = dict_update (recording_times ?st2) ps"
    and m: "monitor st' = monitor ?st2" "radio st' = radio ?st2"
    by blast
  have "assign_slots w now (p # ps) st = Inr st'"
    using r acc by (simp add: p schedule_city_recording_def)
  moreover have "jobs st' = jobs st @ map (daily_job w now) (p # ps)"
    using j by (simp add: p schedule_do_def schedule_next_run_def daily_job_def)
  moreover have "recording_times st' = dict_update (recording_times st) (p # ps)"
    using t by (simp add: p schedule_do_def dict_update_def)
  moreover have "monitor st' = monitor st" "radio st' = radio st"
    using m by (simp_all add: schedule_do_def)
  ultimately show ?case by blast
qed


text \<open>
  C1, as the code has it. For every call of \<^verbatim>\<open>schedule_all_cities\<close> with a non-zero
  interval in which the number of slots \<open>floor(totalMinutes / interval)\<close> is smaller
  than the number of cities, and in which \<open>floor(totalMinutes / cityCount)\<close> is not 0
  (for a window that runs forward: at least one minute per city), whatever order the
  shuffle gives and when the scheduling library accepts the times generated: the call
  returns, the interval is shrunk to \<open>floor(totalMinutes / cityCount)\<close>, the jobs it
  appends are one per city, in the order of the cities, \<^verbatim>\<open>recording_times\<close> gives every
  city the time of its job, and the times are pairwise distinct.
\<close>

theorem schedule_all_cities_unique_slots:
  assumes c: "get_cities w st = cities"
    and ne: "cities \<noteq> []"
    and dc: "distinct cities"
    and nz: "interval_minutes \<noteq> 0"
    and few: "(end_hour - start_hour) * 60 div interval_minutes < int (length cities)"
    and room: "(end_hour - start_hour) * 60 div int (length cities) \<noteq> 0"
    and ts: "ts = slot_times start_hour ((end_hour - start_hour) * 60 div int (length cities))
                    (int (length cities))"
    and perm: "mset (w_shuffle w ts) = mset ts"
    and acc: "\<forall>t \<in> set ts. w_at_accepts w t"
  shows "\<exists>st'. schedule_all_cities w now start_hour end_hour interval_minutes st = Inr st'
      \<and> take (length (jobs st)) (jobs st') = jobs st
      \<and> map do_func (drop (length (jobs st)) (jobs st')) = map RecordCity cities
      \<and> map at_time (drop (length (jobs st)) (jobs st')) = map Some (w_shuffle w ts)
      \<and> distinct (map at_time (drop (length (jobs st)) (jobs st')))
      \<and> map (map_of (recording_times st')) cities = map Some (w_shuffle w ts)
      \<and> distinct (w_shuffle w ts)
      \<and> length (w_shuffle w ts) = length cities"
proof -
  let ?ts' = "w_shuffle w ts"
  let ?ps = "zip cities ?ts'"
  have len_ts: "length ts = length cities" by (simp add: ts slot_times_length)
  from perm have len: "length ?ts' = length cities"
    using len_ts by (metis mset_eq_length)
  have "distinct ts" unfolding ts using room by (rule slot_times_distinct)
  with perm have dist: "distinct ?ts'" by (metis mset_eq_imp_distinct_iff)
  from perm have "set ?ts' = set ts" by (rule mset_eq_setD)
  with acc have "\<forall>p \<in> set ?ps. w_at_accepts w (snd p)"
    by (auto dest: set_zip_rightD)
  from assign_slots_ok [OF this, of now st]
  obtain st' where r: "assign_slots w now ?ps st = Inr st'"
    and j: "jobs st' = jobs st @ map (daily_job w now) ?ps"
    and t: "recording_times st' = dict_update (recording_times st) ?ps"
    by blast
  have run: "schedule_all_cities w now start_hour end_hour interval_minutes st = Inr st'"
    using r ne nz few by (simp add: schedule_all_cities_def c Let_def ts)
  have fst_ps: "map fst ?ps = cities" and snd_ps: "map snd ?ps = ?ts'"
    using len by simp_all
  have funcs: "map do_func (map (daily_job w now) ?ps) = map RecordCity cities"
  proof -
    have "map do_func (map (daily_job w now) ?ps) = map RecordCity (map fst ?ps)"
      by (simp add: daily_job_def comp_def)
    then show ?thesis by (simp only: fst_ps)
  qed
  have ats: "map at_time (map (daily_job w now) ?ps) = map Some ?ts'"
  proof -
    have "map at_time (map (daily_job w now) ?ps) = map Some (map snd ?ps)"
      by (simp add: daily_job_def comp_def)
    then show ?thesis by (simp only: snd_ps)
  qed
  have rec: "map (map_of (recording_times st')) cities = map Some ?ts'"
  proof (rule nth_equalityI)
    show "length (map (map_of (recording_times st')) cities) = length (map Some ?ts')"
      using len by simp
  next
    fix i assume "i < length (map (map_of (recording_times st')) cities)"
    then have i: "i < length cities" by simp
    have "distinct (map fst ?ps)" using dc by (simp only: fst_ps)
    then have "map_of (recording_times st') = map_of (recording_times st) ++ map_of ?ps"
      unfolding t by (rule map_of_dict_update)
    moreover have "map_of ?ps (cities ! i) = Some (?ts' ! i)"
      using len dc i by (simp add: map_of_zip_nth)
    ultimately have "map_of (recording_times st') (cities ! i) = Some (?ts' ! i)"
      by (simp add: map_add_def)
    then show "map (map_of (recording_times st')) cities ! i = map Some ?ts' ! i"
      using i len by simp
  qed
  have d1: "take (length (jobs st)) (jobs st') = jobs st" by (simp add: j)
  have d2: "drop (length (jobs st)) (jobs st') = map (daily_job w now) ?ps" by (simp add: j)
  have funcs': "map do_func (drop (length (jobs st)) (jobs st')) = map RecordCity cities"
    unfolding d2 by (rule funcs)
  have ats': "map at_time (drop (length (jobs st)) (jobs st')) = map Some ?ts'"
    unfolding d2 by (rule ats)
  have dist_at: "distinct (map at_time (drop (length (jobs st)) (jobs st')))"
    unfolding ats' using dist by (simp add: distinct_map)
  from run d1 funcs' ats' dist_at rec dist len show ?thesis
    by blast
qed


theorem schedule_all_cities_unique_slots_witness:
  "map_sum id
     (\<lambda>st'. (map do_func (jobs st'), map at_time (jobs st'),
              map (map_of (recording_times st')) [''riyadh'', ''jeddah'']))
     (schedule_all_cities world_playlist 0 0 24 1440 recorder_two_cities)
   = Inr ([RecordCity ''riyadh'', RecordCity ''jeddah''],
          [Some ''12:00'', Some ''00:00''],
          [Some ''12:00'', Some ''00:00''])"
proof -
  let ?cities = "[''riyadh'', ''jeddah'']"
  let ?ts = "[''00:00'', ''12:00'']"
  have c: "get_cities world_playlist recorder_two_cities = ?cities"
    by (simp add: get_cities_def recorder_two_cities_def)
  have ne: "?cities \<noteq> []" and dc: "distinct ?cities" by simp_all
  have nz: "(1440::int) \<noteq> 0" by simp
  have few: "(24 - 0) * 60 div 1440 < int (length ?cities)" by simp
  have room: "(24 - 0) * 60 div int (length ?cities) \<noteq> 0" by simp
  have ts: "?ts = slot_times 0 ((24 - 0) * 60 div int (length ?cities)) (int (length ?cities))"
    by code_simp
  have sh: "w_shuffle world_playlist ?ts = [''12:00'', ''00:00'']"
    by (simp add: world_playlist_def)
  have perm: "mset (w_shuffle world_playlist ?ts) = mset ?ts"
    by (simp add: sh)
  have acc: "\<forall>t \<in> set ?ts. w_at_accepts world_playlist t"
    by (simp add: world_playlist_def)
  have j0: "jobs recorder_two_cities = []" by (simp add: recorder_two_cities_def)
  from schedule_all_cities_unique_slots [OF c ne dc nz few room ts perm acc, of 0]
  obtain st' where "schedule_all_cities world_playlist 0 0 24 1440 recorder_two_cities = Inr st'"
    and "map do_func (drop (length (jobs recorder_two_cities)) (jobs st')) = map RecordCity ?cities"
    and "map at_time (drop (length (jobs recorder_two_cities)) (jobs st'))
           = map Some (w_shuffle world_playlist ?ts)"
    and "map (map_of (recording_times st')) ?cities = map Some (w_shuffle world_playlist ?ts)"
    by blast
  then show ?thesis by (simp add: j0 sh)
qed

text \<open>
  A window of no minutes for two cities: there are fewer slots than cities, the shrunk
  interval is 0 and both cities get the time 05:00.
\<close>

theorem schedule_all_cities_empty_window:
  "(5 - 5) * 60 div 30 < int (length (get_cities world_playlist recorder_two_cities))
   \<and> map_sum id (\<lambda>st'. (map do_func (jobs st'), map at_time (jobs st'), recording_times st'))
       (schedule_all_cities world_playlist 0 5 5 30 recorder_two_cities)
     = Inr ([RecordCity ''riyadh'', RecordCity ''jeddah''],
            [Some ''05:00'', Some ''05:00''],
            [(''riyadh'', ''05:00''), (''jeddah'', ''05:00'')])"
  by code_simp

subsection \<open>Retries\<close>

lemma try_record_jobs: "jobs (snd (try_record w now sid url city dir st)) = jobs st"
  by (auto simp: try_record_def log_recording_def Let_def split: sum.splits)

lemma record_city_station_on_failure:
  assumes "try_record w now sid url city dir st = (Some e, st1)"
  shows "monitor (record_city_station w now city dir (sid, url) st) = mark_failed sid (monitor st1)"
    and "jobs (record_city_station w now city dir (sid, url) st) =
      (if should_retry (mark_failed sid (monitor st1)) sid
       then jobs st @
            [\<lparr>job_interval = get_retry_delay (mark_failed sid (monitor st1)) sid,
              job_unit = Seconds, at_time = None,
              do_func = RetryRecording sid url city,
              next_run = int now + get_retry_delay (mark_failed sid (monitor st1)) sid\<rparr>]
       else jobs st)"
proof -
  from assms have j: "jobs st1 = jobs st"
    using try_record_jobs [of w now sid url city dir st] by simp
  show "monitor (record_city_station w now city dir (sid, url) st) = mark_failed sid (monitor st1)"
    using assms by (simp add: record_city_station_def Let_def schedule_do_def)
  show "jobs (record_city_station w now city dir (sid, url) st) =
      (if should_retry (mark_failed sid (monitor st1)) sid
       then jobs st @
            [\<lparr>job_interval = get_retry_delay (mark_failed sid (monitor st1)) sid,
              job_unit = Seconds, at_time = None,
              do_func = RetryRecording sid url city,
              next_run = int now + get_retry_delay (mark_failed sid (monitor st1)) sid\<rparr>]
       else jobs st)"
    using assms j
    by (simp add: record_city_station_def Let_def schedule_do_def schedule_next_run_def
          period_seconds_def)
qed

lemma record_city_station_on_success:
  assumes "try_record w now sid url city dir st = (None, st1)"
  shows "record_city_station w now city dir (sid, url) st = st1" and "jobs st1 = jobs st"
  using assms try_record_jobs [of w now sid url city dir st]
  by (simp_all add: record_city_station_def)

lemma retry_recording_jobs: "jobs (retry_recording w now sid url city st) = jobs st"
proof -
  obtain r st1 where t: "try_record w now sid url city (path_join (base_output_dir st) city) st = (r, st1)"
    by (cases "try_record w now sid url city (path_join (base_output_dir st) city) st")
  then have "jobs st1 = jobs st"
    using try_record_jobs [of w now sid url city "path_join (base_output_dir st) city" st] by simp
  then show ?thesis using t by (cases r) (simp_all add: retry_recording_def Let_def)
qed

lemma retry_recording_on_failure:
  assumes "try_record w now sid url city (path_join (base_output_dir st) city) st = (Some e, st1)"
  shows "monitor (retry_recording w now sid url city st) = mark_failed sid (monitor st1)"
  using assms by (simp add: retry_recording_def Let_def)

lemma run_pending_keeps_retry_job:
  assumes "jobs st = [j]" and "do_func j = RetryRecording sid url city"
    and "at_time j = None" and "job_unit j = Seconds" and "next_run j \<le> int now"
  shows "run_pending w now st =
      Inr ((retry_recording w now sid url city st)
             \<lparr>jobs := [j\<lparr>next_run := int now + job_interval j\<rparr>]\<rparr>)"
  using assms retry_recording_jobs [of w now sid url city st]
  by (simp add: run_pending_def runnable_jobs_def run_job_def schedule_next_run_def
        period_seconds_def)


text \<open>
  C3. A failed attempt in \<^verbatim>\<open>record_city\<close> is specified to schedule a retry that fires
  once. In the code the failure path of \<^verbatim>\<open>record_city\<close> marks the station failed and,
  when \<^verbatim>\<open>should_retry\<close> then holds, registers \<^verbatim>\<open>retry_recording\<close> with
  \<^verbatim>\<open>schedule.every(retry_delay).seconds\<close>, a job that stays in the scheduler;
  \<^verbatim>\<open>retry_recording\<close> registers nothing itself. With one station whose recording always
  fails, \<^verbatim>\<open>record_city\<close> at second 1000 leaves one retry job with interval 600, due at
  1600; the timer loop waking at 1600, 2200 and 2800 runs it each time, so the failure
  count is 4, above \<open>max_retries = 3\<close>, and the job is still there, due again at 3400.
\<close>

theorem retry_job_fires_every_period:
  "(case record_city world_ffmpeg_fails 1000 ''riyadh'' recorder_one_city of
      Inl e \<Rightarrow> None
    | Inr st1 \<Rightarrow>
        (case run_loop world_ffmpeg_fails [1600, 2200, 2800] st1 of
           Inl e \<Rightarrow> None
         | Inr st \<Rightarrow>
             Some (map job_view (jobs st1), failure_count (monitor st1) ''a'',
                   map job_view (jobs st), failure_count (monitor st) ''a'',
                   should_retry (monitor st) ''a'')))
   = Some ([(RetryRecording ''a'' ''http://x/live'' ''riyadh'', 600, 1600)], 1,
           [(RetryRecording ''a'' ''http://x/live'' ''riyadh'', 600, 3400)], 4, False)"
  by code_simp

end
